(* ===== verification/Prelude.thy ===== *)
theory Prelude
  imports Main "HOL-Library.Word" "HOL-Library.Monad_Syntax"
begin

unbundle bit_operations_syntax

text \<open>
  The vocabulary the components share. A C object of \<open>n\<close> bytes is a list of \<open>n\<close> words of
  width 8, and an access is given by the index of its first byte. An access outside the object is
  undefined behaviour in C; the model makes it the value \<^term>\<open>None\<close> of an option, so a
  definition whose value is \<open>Some\<close> has performed no such access. The functions
  \<open>memcpy\<close>, \<open>memset\<close> and \<open>memchr\<close> are those of the C library in
  \<^verbatim>\<open>src/bionic/libc\<close>; their size argument is an \<open>int\<close> of the callers that C converts to
  \<open>size_t\<close>, so a negative size is larger than every object.
  The lemmas below state when an access succeeds and what the object holds afterwards; they carry
  the buffer arguments of the serial drivers.
\<close>

section \<open>Bytes and objects\<close>

type_synonym u8 = "8 word"
type_synonym u16 = "16 word"
type_synonym u32 = "32 word"
type_synonym bytes = "u8 list"

named_theorems mem_simps \<open>when an access to a byte object succeeds, and its result\<close>

text \<open>The subscript \<open>a[i]\<close> of an object.\<close>

definition rd :: "bytes \<Rightarrow> nat \<Rightarrow> u8 option" where
  "rd a i = (if i < length a then Some (a ! i) else None)"

text \<open>The assignment \<open>a[i] = v\<close>.\<close>

definition wr :: "bytes \<Rightarrow> nat \<Rightarrow> u8 \<Rightarrow> bytes option" where
  "wr a i v = (if i < length a then Some (a[i := v]) else None)"

text \<open>
  \<open>memcpy(&dst[d], &src[s], n)\<close>. Source and destination may be the same object: the drivers
  then copy from a higher to a lower address, where a copy in ascending order reads every byte
  before it is overwritten. C leaves a copy between overlapping objects undefined; the model gives it
  this meaning.
\<close>

definition memcpy_at :: "bytes \<Rightarrow> nat \<Rightarrow> bytes \<Rightarrow> nat \<Rightarrow> int \<Rightarrow> bytes option" where
  "memcpy_at dst d src s n =
     (if 0 \<le> n \<and> d + nat n \<le> length dst \<and> s + nat n \<le> length src
      then Some (take d dst @ take (nat n) (drop s src) @ drop (d + nat n) dst)
      else None)"

text \<open>\<open>memset(&dst[d], v, n)\<close>.\<close>

definition memset_at :: "bytes \<Rightarrow> nat \<Rightarrow> u8 \<Rightarrow> int \<Rightarrow> bytes option" where
  "memset_at dst d v n =
     (if 0 \<le> n \<and> d + nat n \<le> length dst
      then Some (take d dst @ replicate (nat n) v @ drop (d + nat n) dst)
      else None)"

text \<open>
  \<open>memchr(&a[s], c, n)\<close>: the outer \<open>None\<close> is a read outside the object, the inner one the
  null pointer.
\<close>

fun memchr_from :: "bytes \<Rightarrow> nat \<Rightarrow> u8 \<Rightarrow> nat \<Rightarrow> nat option option" where
  "memchr_from a p c 0 = Some None"
| "memchr_from a p c (Suc n) =
     (case rd a p of
        None \<Rightarrow> None
      | Some b \<Rightarrow> if b = c then Some (Some p) else memchr_from a (Suc p) c n)"

definition memchr_at :: "bytes \<Rightarrow> nat \<Rightarrow> u8 \<Rightarrow> int \<Rightarrow> nat option option" where
  "memchr_at a s c n = (if 0 \<le> n then memchr_from a s c (nat n) else None)"

text \<open>The bytes a serial port has been given, in the order of the \<open>write\<close> calls.\<close>

type_synonym tty_out = "bytes list"

section \<open>Facts on accesses\<close>

lemma byte_range: "uint (x::u8) < 256" "unat (x::u8) < 256"
  using uint_bounded [of x] unsigned_less [of x, where ?'a = nat] by simp_all

lemma rd_eq_Some [mem_simps]: "rd a i = Some v \<longleftrightarrow> i < length a \<and> a ! i = v"
  by (auto simp: rd_def)

lemma rd_in_range [mem_simps]: "i < length a \<Longrightarrow> rd a i = Some (a ! i)"
  by (simp add: rd_def)

lemma wr_in_range [mem_simps]: "i < length a \<Longrightarrow> wr a i v = Some (a[i := v])"
  by (simp add: wr_def)

lemma length_memcpy_at: "memcpy_at dst d src s n = Some b \<Longrightarrow> length b = length dst"
  by (auto simp: memcpy_at_def split: if_splits)

lemma length_memset_at: "memset_at dst d v n = Some b \<Longrightarrow> length b = length dst"
  by (auto simp: memset_at_def split: if_splits)

lemma memcpy_at_ok:
  "0 \<le> n \<Longrightarrow> d + nat n \<le> length dst \<Longrightarrow> s + nat n \<le> length src \<Longrightarrow>
   memcpy_at dst d src s n = Some (take d dst @ take (nat n) (drop s src) @ drop (d + nat n) dst)"
  by (simp add: memcpy_at_def)

lemma memset_at_ok:
  "0 \<le> n \<Longrightarrow> d + nat n \<le> length dst \<Longrightarrow>
   memset_at dst d v n = Some (take d dst @ replicate (nat n) v @ drop (d + nat n) dst)"
  by (simp add: memset_at_def)

lemma memset_at_all: "n = int (length a) \<Longrightarrow> memset_at a 0 v n = Some (replicate (length a) v)"
  by (simp add: memset_at_def)

text \<open>\<open>memchr\<close> finds the first occurrence, and runs off the object only if it finds none.\<close>

lemma memchr_from_found:
  "memchr_from a p c n = Some (Some h) \<Longrightarrow>
   p \<le> h \<and> h < p + n \<and> h < length a \<and> a ! h = c \<and> (\<forall>i. p \<le> i \<and> i < h \<longrightarrow> a ! i \<noteq> c)"
proof (induction a p c n rule: memchr_from.induct)
  case (2 a p c n)
  show ?case
  proof (cases "p < length a \<and> a ! p = c")
    case True
    with "2.prems" show ?thesis by (auto simp: rd_def split: if_splits)
  next
    case False
    with "2.prems" have p: "p < length a" "a ! p \<noteq> c" and rec: "memchr_from a (Suc p) c n = Some (Some h)"
      by (auto simp: rd_def split: if_splits)
    from p rec have IH: "Suc p \<le> h \<and> h < Suc p + n \<and> h < length a \<and> a ! h = c \<and>
        (\<forall>i. Suc p \<le> i \<and> i < h \<longrightarrow> a ! i \<noteq> c)"
      using "2.IH" by (simp add: rd_def)
    have "a ! i \<noteq> c" if "p \<le> i" "i < h" for i
      using IH p that by (cases "i = p") auto
    with IH show ?thesis by auto
  qed
qed simp

lemma memchr_from_none:
  "memchr_from a p c n = Some None \<longleftrightarrow> (n = 0 \<or> p + n \<le> length a) \<and> (\<forall>i. p \<le> i \<and> i < p + n \<longrightarrow> a ! i \<noteq> c)"
proof (induction a p c n rule: memchr_from.induct)
  case (1 a p c)
  then show ?case by auto
next
  case (2 a p c n)
  show ?case
  proof (cases "p < length a \<and> a ! p \<noteq> c")
    case True
    then have "memchr_from a p c (Suc n) = memchr_from a (Suc p) c n" by (simp add: rd_def)
    moreover have "memchr_from a (Suc p) c n = Some None \<longleftrightarrow>
        (n = 0 \<or> Suc p + n \<le> length a) \<and> (\<forall>i. Suc p \<le> i \<and> i < Suc p + n \<longrightarrow> a ! i \<noteq> c)"
      using "2.IH" True by (simp add: rd_def)
    moreover have "(\<forall>i. p \<le> i \<and> i < p + Suc n \<longrightarrow> a ! i \<noteq> c) \<longleftrightarrow>
        (\<forall>i. Suc p \<le> i \<and> i < Suc p + n \<longrightarrow> a ! i \<noteq> c)"
    proof -
      have "a ! i \<noteq> c" if "\<forall>i. Suc p \<le> i \<and> i < Suc p + n \<longrightarrow> a ! i \<noteq> c" "p \<le> i" "i < p + Suc n" for i
        using that True by (cases "i = p") auto
      then show ?thesis by (simp only: add_Suc add_Suc_right) (blast dest: Suc_leD)
    qed
    ultimately show ?thesis using True by auto
  next
    case False
    then show ?thesis by (auto simp: rd_def)
  qed
qed

lemma memchr_from_in_range: "p + n \<le> length a \<Longrightarrow> \<exists>r. memchr_from a p c n = Some r"
  by (induction a p c n rule: memchr_from.induct) (auto simp: rd_def)

lemma memchr_at_cases:
  assumes "0 \<le> n" "s + nat n \<le> length a"
  obtains (absent) "memchr_at a s c n = Some None" "\<And>i. s \<le> i \<Longrightarrow> i < s + nat n \<Longrightarrow> a ! i \<noteq> c"
  | (found) h where "memchr_at a s c n = Some (Some h)" "s \<le> h" "h < s + nat n" "h < length a"
      "a ! h = c" "\<And>i. s \<le> i \<Longrightarrow> i < h \<Longrightarrow> a ! i \<noteq> c"
proof (cases "memchr_at a s c n")
  case None
  then show ?thesis using assms memchr_from_in_range [of s "nat n" a c] by (auto simp: memchr_at_def)
next
  case (Some r)
  then have r: "memchr_from a s c (nat n) = Some r" using assms by (simp add: memchr_at_def)
  show ?thesis
  proof (cases r)
    case None
    with r show ?thesis using Some absent memchr_from_none [of a s c "nat n"] by auto
  next
    case h: (Some h)
    with r have "s \<le> h \<and> h < s + nat n \<and> h < length a \<and> a ! h = c \<and>
        (\<forall>i. s \<le> i \<and> i < h \<longrightarrow> a ! i \<noteq> c)"
      using memchr_from_found by blast
    with Some h show ?thesis using found by blast
  qed
qed

lemma memchr_at_first:
  assumes "0 \<le> n" "s \<le> h" "h < s + nat n" "h < length a" "a ! h = c" "\<And>i. s \<le> i \<Longrightarrow> i < h \<Longrightarrow> a ! i \<noteq> c"
  shows "memchr_at a s c n = Some (Some h)"
proof -
  have "memchr_from a s c m = Some (Some h)" if "s \<le> h" "h < s + m" "\<forall>i. s \<le> i \<and> i < h \<longrightarrow> a ! i \<noteq> c" for m
    using that assms(4,5)
  proof (induction a s c m rule: memchr_from.induct)
    case (2 a p c n)
    show ?case
    proof (cases "p = h")
      case True
      with "2.prems" show ?thesis by (simp add: rd_def)
    next
      case False
      then have "p < h" using "2.prems" by simp
      moreover from this have "a ! p \<noteq> c" using "2.prems" by simp
      ultimately show ?thesis using "2.IH" "2.prems" by (simp add: rd_def)
    qed
  qed simp
  then show ?thesis using assms by (simp add: memchr_at_def)
qed

text \<open>In closed form: the length of the part before the byte.\<close>

lemma memchr_from_eq:
  "p + n \<le> length a \<Longrightarrow> memchr_from a p c n =
     Some (if c \<in> set (take n (drop p a)) then Some (p + length (takeWhile (\<lambda>x. x \<noteq> c) (take n (drop p a)))) else None)"
proof (induction a p c n rule: memchr_from.induct)
  case (2 a p c n)
  then have p: "p < length a" by simp
  then have d: "take (Suc n) (drop p a) = a ! p # take n (drop (Suc p) a)"
    by (simp add: Cons_nth_drop_Suc [symmetric])
  show ?case
  proof (cases "a ! p = c")
    case True
    with d p show ?thesis by (simp add: rd_def)
  next
    case False
    have "memchr_from a p c (Suc n) = memchr_from a (Suc p) c n" using p False by (simp add: rd_def)
    also have "\<dots> = Some (if c \<in> set (take n (drop (Suc p) a))
        then Some (Suc p + length (takeWhile (\<lambda>x. x \<noteq> c) (take n (drop (Suc p) a)))) else None)"
      using 2 p False by (simp add: rd_def)
    finally show ?thesis using d False by simp
  qed
qed simp

text \<open>A search that goes on behind the first \<open>p\<close> bytes, where the byte does not occur.\<close>

lemma memchr_at_prefix:
  assumes "p \<le> nat n" "0 \<le> n" "nat n \<le> length a" "\<And>i. p \<le> i \<Longrightarrow> i < nat n \<Longrightarrow> a ! i \<noteq> c"
  shows "memchr_at a 0 c n =
     Some (if c \<in> set (take p a) then Some (length (takeWhile (\<lambda>x. x \<noteq> c) (take p a))) else None)"
proof -
  have split: "take (nat n) a = take p a @ take (nat n - p) (drop p a)"
    using assms(1) by (metis le_add_diff_inverse take_add)
  have tail: "c \<notin> set (take (nat n - p) (drop p a))"
    using assms by (auto simp: in_set_conv_nth)
  have "memchr_at a 0 c n = Some (if c \<in> set (take (nat n) a)
      then Some (length (takeWhile (\<lambda>x. x \<noteq> c) (take (nat n) a))) else None)"
    using assms by (simp add: memchr_at_def memchr_from_eq)
  moreover have "takeWhile (\<lambda>x. x \<noteq> c) (take (nat n) a) = takeWhile (\<lambda>x. x \<noteq> c) (take p a)" if "c \<in> set (take p a)"
    using that by (simp add: split takeWhile_append1)
  ultimately show ?thesis using tail by (simp add: split)
qed

text \<open>The same for a search that begins at \<open>k\<close>, perhaps behind the first \<open>p\<close> bytes.\<close>

lemma memchr_at_window:
  assumes "p \<le> k + nat n" "0 \<le> n" "k + nat n \<le> length a" "\<And>i. p \<le> i \<Longrightarrow> i < k + nat n \<Longrightarrow> a ! i \<noteq> c"
  shows "memchr_at a k c n = Some (if c \<in> set (drop k (take p a))
    then Some (k + length (takeWhile (\<lambda>x. x \<noteq> c) (drop k (take p a)))) else None)"
proof -
  let ?r = "take (nat n - (p - k)) (drop (p - k) (drop k a))"
  have split: "take (nat n) (drop k a) = drop k (take p a) @ ?r"
    using assms(1) by (metis add.commute drop_take le_add_diff_inverse le_diff_conv take_add)
  have tail: "c \<notin> set ?r" using assms by (auto simp: in_set_conv_nth)
  have "memchr_at a k c n = Some (if c \<in> set (take (nat n) (drop k a))
      then Some (k + length (takeWhile (\<lambda>x. x \<noteq> c) (take (nat n) (drop k a)))) else None)"
    using assms by (simp add: memchr_at_def memchr_from_eq)
  moreover have "takeWhile (\<lambda>x. x \<noteq> c) (take (nat n) (drop k a)) = takeWhile (\<lambda>x. x \<noteq> c) (drop k (take p a))"
    if "c \<in> set (drop k (take p a))"
    unfolding split using that by (simp add: takeWhile_append1)
  ultimately show ?thesis using tail unfolding split by auto
qed

lemma length_takeWhile_before: "x \<in> set v \<Longrightarrow> length (takeWhile (\<lambda>y. y \<noteq> x) v) < length v"
  by (induction v) auto

lemma take_Suc_drop: "p < length a \<Longrightarrow> take (Suc n) (drop p a) = a ! p # take n (drop (Suc p) a)"
  by (simp add: Cons_nth_drop_Suc [symmetric])

text \<open>A prefix of a sequence of blocks: whole blocks, then a proper prefix of the next.\<close>

lemma concat_prefix:
  assumes "x @ y = concat fs" "\<forall>f \<in> set fs. f \<noteq> []"
  obtains gs hs part where "fs = gs @ hs" "x = concat gs @ part" "part @ y = concat hs"
    "part = [] \<or> (\<exists>h hs' k. hs = h # hs' \<and> part = take k h \<and> k < length h)"
  using assms
proof (induction fs arbitrary: x thesis)
  case Nil
  then show ?case by (auto intro: Nil.prems(1) [of "[]" "[]" "[]"])
next
  case (Cons f fs)
  show ?case
  proof (cases "length x < length f")
    case True
    have "x = take (length x) f" using Cons.prems(2) True by (auto simp: append_eq_append_conv_if split: if_splits)
    then show ?thesis using Cons.prems(1) [of "[]" "f # fs" x] Cons.prems(2) True by auto
  next
    case False
    then obtain z where z: "x = f @ z" "z @ y = concat fs"
      using Cons.prems(2) by (auto simp: append_eq_append_conv2 split: if_splits)
    from Cons.IH [OF _ z(2)] Cons.prems(3) obtain gs hs part where
      "fs = gs @ hs" "z = concat gs @ part" "part @ y = concat hs"
      "part = [] \<or> (\<exists>h hs' k. hs = h # hs' \<and> part = take k h \<and> k < length h)" by auto
    then show ?thesis using Cons.prems(1) [of "f # gs" hs part] z by auto
  qed
qed

lemma sum_list_update_byte:
  fixes xs :: bytes
  shows "k < length xs \<Longrightarrow> sum_list (xs[k := x]) = sum_list xs + x - xs ! k"
  by (induction xs arbitrary: k) (auto simp: less_Suc_eq_0_disj)

lemma tl_list_update: "0 < i \<Longrightarrow> tl (xs[i := x]) = (tl xs)[i - 1 := x]"
  by (cases xs; cases i) auto

end
