(* ===== verification/Bionic_Sem.thy ===== *)
theory Bionic_Sem
  imports Prelude
begin

text \<open>
  The counting semaphore of the C library, \<^verbatim>\<open>src/bionic/libc/bionic/semaphore.c\<close>, on its
  32-bit representation: bits 1 to 31 hold a signed value, where -1 means that a thread waits, and
  bit 0 the process-shared flag. A compare-and-exchange loop is modelled by its successful
  iteration. A thread that sleeps in the kernel is described by the list of its wake-ups, each with
  the word it finds then, since other threads have changed it; \<^term>\<open>None\<close> says that the list
  ends while the thread still waits.
  The locale \<open>counting_semaphore\<close> is what the drivers rely on, and its interpretation on
  the words proves that this implementation provides it.
\<close>

section \<open>Error numbers\<close>

text \<open>The members of \<^verbatim>\<open>sys/_errdefs.h\<close> the modelled code uses, and their numbers.\<close>

datatype errno = ENOENT | EINTR | EAGAIN | ENOMEM | EBUSY | EINVAL | ENOSYS | ETIME | EOVERFLOW | ETIMEDOUT

fun errno_num :: "errno \<Rightarrow> int" where
  "errno_num ENOENT = 2"
| "errno_num EINTR = 4"
| "errno_num EAGAIN = 11"
| "errno_num ENOMEM = 12"
| "errno_num EBUSY = 16"
| "errno_num EINVAL = 22"
| "errno_num ENOSYS = 38"
| "errno_num ETIME = 62"
| "errno_num EOVERFLOW = 75"
| "errno_num ETIMEDOUT = 110"

section \<open>The representation\<close>

definition SEMCOUNT_SHARED_MASK :: u32 where "SEMCOUNT_SHARED_MASK = 0x00000001"
definition SEMCOUNT_VALUE_MASK :: u32 where "SEMCOUNT_VALUE_MASK = 0xfffffffe"
definition SEM_MAX_VALUE :: int where "SEM_MAX_VALUE = 0x3fffffff"

definition SEMCOUNT_FROM_VALUE :: "u32 \<Rightarrow> u32" where
  "SEMCOUNT_FROM_VALUE val = push_bit 1 val AND SEMCOUNT_VALUE_MASK"

definition SEMCOUNT_TO_VALUE :: "u32 \<Rightarrow> int" where
  "SEMCOUNT_TO_VALUE sval = sint (signed_drop_bit 1 sval)"

definition SEMCOUNT_ONE :: u32 where "SEMCOUNT_ONE = SEMCOUNT_FROM_VALUE 1"
definition SEMCOUNT_MINUS_ONE :: u32 where "SEMCOUNT_MINUS_ONE = SEMCOUNT_FROM_VALUE (- 1)"

definition SEMCOUNT_DECREMENT :: "u32 \<Rightarrow> u32" where
  "SEMCOUNT_DECREMENT sval = (sval - push_bit 1 1) AND SEMCOUNT_VALUE_MASK"

definition SEMCOUNT_INCREMENT :: "u32 \<Rightarrow> u32" where
  "SEMCOUNT_INCREMENT sval = (sval + push_bit 1 1) AND SEMCOUNT_VALUE_MASK"

definition SEM_GET_SHARED :: "u32 \<Rightarrow> u32" where
  "SEM_GET_SHARED count = count AND SEMCOUNT_SHARED_MASK"

section \<open>The operations\<close>

text \<open>
  A semaphore pointer is an option, \<^term>\<open>None\<close> the null pointer. An operation returns its
  result, the \<open>errno\<close> it sets, and the semaphore.
\<close>

type_synonym sem_result = "int \<times> errno option \<times> u32 option"

definition sem_init :: "u32 option \<Rightarrow> int \<Rightarrow> u32 \<Rightarrow> sem_result" where
  "sem_init sem pshared val =
     (case sem of
        None \<Rightarrow> (-1, Some EINVAL, None)
      | Some w \<Rightarrow>
          if uint val > SEM_MAX_VALUE then (-1, Some EINVAL, Some w)
          else
            let count = SEMCOUNT_FROM_VALUE val;
                count = (if pshared \<noteq> 0 then count OR SEMCOUNT_SHARED_MASK else count)
            in (0, None, Some count))"

definition sem_destroy :: "u32 option \<Rightarrow> sem_result" where
  "sem_destroy sem =
     (case sem of
        None \<Rightarrow> (-1, Some EINVAL, None)
      | Some w \<Rightarrow>
          if SEMCOUNT_TO_VALUE w < 0 then (-1, Some EBUSY, Some w)
          else (0, None, Some 0))"

text \<open>The three atomic steps return the old value and the new word.\<close>

definition sem_dec :: "u32 \<Rightarrow> int \<times> u32" where
  "sem_dec w =
     (let shared = w AND SEMCOUNT_SHARED_MASK;
          old = w AND SEMCOUNT_VALUE_MASK;
          ret = SEMCOUNT_TO_VALUE old
      in if ret < 0 then (ret, w) else (ret, SEMCOUNT_DECREMENT old OR shared))"

definition sem_trydec :: "u32 \<Rightarrow> int \<times> u32" where
  "sem_trydec w =
     (let shared = w AND SEMCOUNT_SHARED_MASK;
          old = w AND SEMCOUNT_VALUE_MASK;
          ret = SEMCOUNT_TO_VALUE old
      in if ret \<le> 0 then (ret, w) else (ret, SEMCOUNT_DECREMENT old OR shared))"

definition sem_inc :: "u32 \<Rightarrow> int \<times> u32" where
  "sem_inc w =
     (let shared = w AND SEMCOUNT_SHARED_MASK;
          old = w AND SEMCOUNT_VALUE_MASK;
          ret = SEMCOUNT_TO_VALUE old
      in if ret = SEM_MAX_VALUE then (ret, w)
         else (ret, (if ret < 0 then SEMCOUNT_ONE else SEMCOUNT_INCREMENT old) OR shared))"

text \<open>\<open>sem_wait\<close>, given the words the thread finds at its wake-ups.\<close>

fun sem_wait_loop :: "u32 list \<Rightarrow> u32 \<Rightarrow> u32 option" where
  "sem_wait_loop [] w = (let (old, w') = sem_dec w in if old > 0 then Some w' else None)"
| "sem_wait_loop (v # vs) w = (let (old, w') = sem_dec w in if old > 0 then Some w' else sem_wait_loop vs v)"

definition sem_wait :: "u32 option \<Rightarrow> u32 list \<Rightarrow> sem_result option" where
  "sem_wait sem wakes =
     (case sem of
        None \<Rightarrow> Some (-1, Some EINVAL, None)
      | Some w \<Rightarrow> map_option (\<lambda>w'. (0, None, Some w')) (sem_wait_loop wakes w))"

text \<open>
  One turn of the loop of \<open>sem_timedwait\<close>: the clock reading, the result of the futex call
  and the word the thread finds when it returns.
\<close>

record tw_round =
  tw_now :: "int \<times> int"
  tw_futex :: int
  tw_wake :: u32

definition time_left :: "int \<times> int \<Rightarrow> int \<times> int \<Rightarrow> int \<times> int" where
  "time_left abs_timeout now =
     (let sec = fst abs_timeout - fst now; nsec = snd abs_timeout - snd now
      in if nsec < 0 then (sec - 1, nsec + 1000000000) else (sec, nsec))"

fun sem_timedwait_loop :: "int \<times> int \<Rightarrow> tw_round list \<Rightarrow> u32 \<Rightarrow> sem_result option" where
  "sem_timedwait_loop abs_timeout [] w = None"
| "sem_timedwait_loop abs_timeout (r # rs) w =
     (let ts = time_left abs_timeout (tw_now r) in
      if fst ts < 0 \<or> snd ts < 0 then Some (-1, Some ETIMEDOUT, Some w)
      else
        let (old, w') = sem_dec w in
        if old > 0 then Some (0, None, Some w')
        else if tw_futex r = - errno_num ETIMEDOUT then Some (-1, Some ETIMEDOUT, Some (tw_wake r))
        else if tw_futex r = - errno_num EINTR then Some (-1, Some EINTR, Some (tw_wake r))
        else sem_timedwait_loop abs_timeout rs (tw_wake r))"

definition sem_timedwait :: "u32 option \<Rightarrow> (int \<times> int) option \<Rightarrow> tw_round list \<Rightarrow> sem_result option" where
  "sem_timedwait sem abs_timeout rounds =
     (case sem of
        None \<Rightarrow> Some (-1, Some EINVAL, None)
      | Some w \<Rightarrow>
          let (old, w') = sem_trydec w in
          if old > 0 then Some (0, None, Some w')
          else
            (case abs_timeout of
               None \<Rightarrow> Some (-1, Some EINVAL, Some w)
             | Some (sec, nsec) \<Rightarrow>
                 if sec < 0 \<or> nsec < 0 \<or> nsec \<ge> 1000000000 then Some (-1, Some EINVAL, Some w)
                 else sem_timedwait_loop (sec, nsec) rounds w))"

text \<open>The futex call that wakes sleeping threads changes nothing here; a thread that waits is a list of its wake-ups.\<close>

definition sem_post :: "u32 option \<Rightarrow> sem_result" where
  "sem_post sem =
     (case sem of
        None \<Rightarrow> (errno_num EINVAL, None, None)
      | Some w \<Rightarrow>
          let (old, w') = sem_inc w in
          if old < 0 then (0, None, Some w')
          else if old = SEM_MAX_VALUE then (-1, Some EOVERFLOW, Some w')
          else (0, None, Some w'))"

definition sem_trywait :: "u32 option \<Rightarrow> sem_result" where
  "sem_trywait sem =
     (case sem of
        None \<Rightarrow> (-1, Some EINVAL, None)
      | Some w \<Rightarrow>
          let (old, w') = sem_trydec w in
          if old > 0 then (0, None, Some w') else (-1, Some EAGAIN, Some w'))"

definition sem_getvalue :: "u32 option \<Rightarrow> int \<times> errno option \<times> int option" where
  "sem_getvalue sem =
     (case sem of
        None \<Rightarrow> (-1, Some EINVAL, None)
      | Some w \<Rightarrow>
          let val = SEMCOUNT_TO_VALUE w in
          (0, None, Some (if val < 0 then 0 else val)))"

text \<open>
  For a semaphore object the program owns: the word after \<open>sem_post\<close>, and after a
  \<open>sem_trywait\<close> with its result.
\<close>

definition post :: "u32 \<Rightarrow> u32" where
  "post w = the (snd (snd (sem_post (Some w))))"

definition trywait :: "u32 \<Rightarrow> int \<times> u32" where
  "trywait w = (let (r, _, w') = sem_trywait (Some w) in (r, the w'))"

section \<open>The words as integers\<close>

lemma int_and_minus2: "(k::int) AND - 2 = 2 * (k div 2)"
  by (subst and_int_unfold) simp

lemma int_or_flag: "even (k::int) \<Longrightarrow> s = 0 \<or> s = 1 \<Longrightarrow> k OR s = k + s"
  by (subst or_int_unfold) auto

lemma sint_value_mask: "sint ((w::u32) AND SEMCOUNT_VALUE_MASK) = 2 * (sint w div 2)"
  by (simp add: SEMCOUNT_VALUE_MASK_def signed_and_eq int_and_minus2)

lemma sint_shared: "sint (w AND SEMCOUNT_SHARED_MASK) = sint w mod 2"
  by (simp only: SEMCOUNT_SHARED_MASK_def signed_and_eq) (simp add: and_one_eq)

lemma sint_or_shared:
  "even (sint (x::u32)) \<Longrightarrow> sint (x OR (w AND SEMCOUNT_SHARED_MASK)) = sint x + sint w mod 2"
  by (simp only: signed_or_eq sint_shared) (rule int_or_flag; auto)

lemma sint_add_two: "sint (w::u32) + 2 < 2 ^ 31 \<Longrightarrow> sint (w + 2) = sint w + 2"
  using sint_ge [of w] by (simp add: sint_word_ariths signed_take_bit_int_eq_self)

lemma sint_minus_two: "- (2 ^ 31) \<le> sint (w::u32) - 2 \<Longrightarrow> sint (w - 2) = sint w - 2"
  using sint_lt [of w] by (simp add: sint_word_ariths signed_take_bit_int_eq_self)

lemma to_value_eq: "SEMCOUNT_TO_VALUE w = sint w div 2"
  by (simp add: SEMCOUNT_TO_VALUE_def sint_signed_drop_bit_eq drop_bit_eq_div)

lemma sint_masked: "sint ((w::u32) AND SEMCOUNT_VALUE_MASK) = 2 * SEMCOUNT_TO_VALUE w"
  by (simp add: sint_value_mask to_value_eq)

lemma to_value_masked: "SEMCOUNT_TO_VALUE (w AND SEMCOUNT_VALUE_MASK) = SEMCOUNT_TO_VALUE w"
  by (simp add: to_value_eq sint_value_mask)

lemma to_value_range: "- (2 ^ 30) \<le> SEMCOUNT_TO_VALUE w" "SEMCOUNT_TO_VALUE w \<le> SEM_MAX_VALUE"
  using sint_ge [of w] sint_lt [of w] by (auto simp: to_value_eq SEM_MAX_VALUE_def)

lemma sint_decrement:
  assumes "0 \<le> SEMCOUNT_TO_VALUE w"
  shows "sint (SEMCOUNT_DECREMENT (w AND SEMCOUNT_VALUE_MASK)) = 2 * (SEMCOUNT_TO_VALUE w - 1)"
proof -
  have "sint ((w AND SEMCOUNT_VALUE_MASK) - 2) = 2 * SEMCOUNT_TO_VALUE w - 2"
    using assms by (subst sint_minus_two) (simp_all add: sint_masked)
  then show ?thesis
    by (simp add: SEMCOUNT_DECREMENT_def sint_masked to_value_eq [of "_ - 2"])
qed

lemma sint_increment:
  assumes "0 \<le> SEMCOUNT_TO_VALUE w" "SEMCOUNT_TO_VALUE w < SEM_MAX_VALUE"
  shows "sint (SEMCOUNT_INCREMENT (w AND SEMCOUNT_VALUE_MASK)) = 2 * (SEMCOUNT_TO_VALUE w + 1)"
proof -
  have "sint ((w AND SEMCOUNT_VALUE_MASK) + 2) = 2 * SEMCOUNT_TO_VALUE w + 2"
    using assms by (subst sint_add_two) (simp_all add: sint_masked SEM_MAX_VALUE_def)
  then show ?thesis
    by (simp add: SEMCOUNT_INCREMENT_def sint_masked to_value_eq [of "_ + 2"])
qed

text \<open>A word built from an even part and the flag of \<open>w\<close>.\<close>

lemma to_value_join:
  assumes "sint x = 2 * v"
  shows "SEMCOUNT_TO_VALUE (x OR (w AND SEMCOUNT_SHARED_MASK)) = v"
    and "SEM_GET_SHARED (x OR (w AND SEMCOUNT_SHARED_MASK)) = SEM_GET_SHARED w"
proof -
  have s: "sint (x OR (w AND SEMCOUNT_SHARED_MASK)) = 2 * v + sint w mod 2"
    using assms by (subst sint_or_shared) auto
  then show "SEMCOUNT_TO_VALUE (x OR (w AND SEMCOUNT_SHARED_MASK)) = v"
    by (simp add: to_value_eq)
  have "sint (SEM_GET_SHARED (x OR (w AND SEMCOUNT_SHARED_MASK))) = sint (SEM_GET_SHARED w)"
    by (simp add: SEM_GET_SHARED_def sint_shared s)
  then show "SEM_GET_SHARED (x OR (w AND SEMCOUNT_SHARED_MASK)) = SEM_GET_SHARED w"
    by (rule signed_word_eqI)
qed

text \<open>The effect of the three atomic steps on the value; none changes the shared flag.\<close>

lemma sem_dec_value:
  "fst (sem_dec w) = SEMCOUNT_TO_VALUE w"
  "SEMCOUNT_TO_VALUE (snd (sem_dec w)) =
     (if SEMCOUNT_TO_VALUE w < 0 then SEMCOUNT_TO_VALUE w else SEMCOUNT_TO_VALUE w - 1)"
  "SEM_GET_SHARED (snd (sem_dec w)) = SEM_GET_SHARED w"
  using to_value_join [OF sint_decrement, of w w]
  by (auto simp: sem_dec_def Let_def to_value_masked)

lemma sem_trydec_value:
  "fst (sem_trydec w) = SEMCOUNT_TO_VALUE w"
  "SEMCOUNT_TO_VALUE (snd (sem_trydec w)) =
     (if SEMCOUNT_TO_VALUE w \<le> 0 then SEMCOUNT_TO_VALUE w else SEMCOUNT_TO_VALUE w - 1)"
  "SEM_GET_SHARED (snd (sem_trydec w)) = SEM_GET_SHARED w"
  using to_value_join [OF sint_decrement, of w w]
  by (auto simp: sem_trydec_def Let_def to_value_masked)

lemma sint_one: "sint SEMCOUNT_ONE = 2 * 1"
  by (simp add: SEMCOUNT_ONE_def SEMCOUNT_FROM_VALUE_def SEMCOUNT_VALUE_MASK_def)

lemma sem_inc_value:
  "fst (sem_inc w) = SEMCOUNT_TO_VALUE w"
  "SEMCOUNT_TO_VALUE (snd (sem_inc w)) =
     (if SEMCOUNT_TO_VALUE w = SEM_MAX_VALUE then SEM_MAX_VALUE
      else if SEMCOUNT_TO_VALUE w < 0 then 1 else SEMCOUNT_TO_VALUE w + 1)"
  "SEM_GET_SHARED (snd (sem_inc w)) = SEM_GET_SHARED w"
  using to_value_join [OF sint_increment, of w w] to_value_join [OF sint_one, of w] to_value_range [of w]
  by (auto simp: sem_inc_def Let_def to_value_masked)

section \<open>The contract of a counting semaphore\<close>

text \<open>
  What a client sees: a number of tokens up to a limit, \<open>give\<close> adds one, \<open>try_take\<close>
  removes one and returns 0, or returns -1 when there is none.
\<close>

locale counting_semaphore =
  fixes tokens :: "'s \<Rightarrow> nat"
    and limit :: nat
    and give :: "'s \<Rightarrow> 's"
    and try_take :: "'s \<Rightarrow> int \<times> 's"
  assumes tokens_limit: "tokens s \<le> limit"
    and tokens_give: "tokens (give s) = min limit (Suc (tokens s))"
    and take_result: "fst (try_take s) = (if tokens s = 0 then -1 else 0)"
    and tokens_take: "tokens (snd (try_take s)) = tokens s - 1"
begin

lemma tokens_gives: "tokens ((give ^^ n) s) = min limit (tokens s + n)"
proof (induction n)
  case 0
  then show ?case using tokens_limit [of s] by simp
next
  case (Suc n)
  then show ?case by (simp add: tokens_give)
qed

lemma tokens_takes: "tokens (((\<lambda>s. snd (try_take s)) ^^ n) s) = tokens s - n"
  by (induction n) (simp_all add: tokens_take)

text \<open>As many takes succeed as tokens were given.\<close>

lemma gives_then_takes:
  assumes "tokens s = 0" "n \<le> limit"
  shows "fst (try_take (((\<lambda>s. snd (try_take s)) ^^ k) ((give ^^ n) s))) = (if k < n then 0 else -1)"
  using assms by (simp add: take_result tokens_takes tokens_gives)

end

text \<open>The tokens of a word.\<close>

definition sem_tokens :: "u32 \<Rightarrow> nat" where
  "sem_tokens w = nat (SEMCOUNT_TO_VALUE w)"

lemma post_eq: "post w = snd (sem_inc w)"
  by (simp add: post_def sem_post_def Let_def split_beta)

lemma trywait_eq: "trywait w = (if sem_tokens w = 0 then -1 else 0, snd (sem_trydec w))"
  by (simp add: trywait_def sem_trywait_def Let_def split_beta sem_trydec_value sem_tokens_def)

interpretation bionic: counting_semaphore sem_tokens "nat SEM_MAX_VALUE" post trywait
proof unfold_locales
  fix s :: u32
  show "sem_tokens s \<le> nat SEM_MAX_VALUE"
    using to_value_range [of s] by (simp add: sem_tokens_def nat_mono)
  show "sem_tokens (post s) = min (nat SEM_MAX_VALUE) (Suc (sem_tokens s))"
    using to_value_range [of s]
    by (auto simp: sem_tokens_def post_eq sem_inc_value SEM_MAX_VALUE_def)
  show "fst (trywait s) = (if sem_tokens s = 0 then -1 else 0)"
    by (simp add: trywait_eq)
  show "sem_tokens (snd (trywait s)) = sem_tokens s - 1"
    by (auto simp: sem_tokens_def trywait_eq sem_trydec_value)
qed

lemma sem_tokens_zero [simp]: "sem_tokens 0 = 0"
  by (simp add: sem_tokens_def to_value_eq)

lemma sem_timedwait_loop_errno:
  "sem_timedwait_loop t rs w = Some (r, e, w') \<Longrightarrow>
   (r = 0 \<and> e = None) \<or> (r = -1 \<and> e \<in> {Some ETIMEDOUT, Some EINTR})"
  by (induction rs arbitrary: w) (auto simp: Let_def split_beta split: if_splits)

lemma sem_timedwait_not_ETIME: "sem_timedwait sem t rs = Some (r, e, s') \<Longrightarrow> r = 0 \<or> (e \<noteq> None \<and> e \<noteq> Some ETIME)"
  by (auto simp: sem_timedwait_def Let_def split_beta
           split: option.splits if_splits dest!: sem_timedwait_loop_errno)

section \<open>Properties\<close>

text \<open>
  C20. The state diagram in the comment of \<^verbatim>\<open>semaphore.c\<close>: posting adds one to a
  non-negative value and turns a negative one into 1, waiting subtracts one from a positive value
  and turns 0 into -1 without obtaining the semaphore, and leaves a negative value alone; the
  process-shared flag never changes.
\<close>

theorem sem_state_diagram:
  "SEMCOUNT_TO_VALUE (snd (sem_inc w)) =
     (if SEMCOUNT_TO_VALUE w < 0 then 1 else min SEM_MAX_VALUE (SEMCOUNT_TO_VALUE w + 1)) \<and>
   SEMCOUNT_TO_VALUE (snd (sem_dec w)) =
     (if SEMCOUNT_TO_VALUE w > 0 then SEMCOUNT_TO_VALUE w - 1 else min (-1) (SEMCOUNT_TO_VALUE w)) \<and>
   sem_wait_loop [] w = (if SEMCOUNT_TO_VALUE w > 0 then Some (snd (sem_dec w)) else None) \<and>
   SEM_GET_SHARED (snd (sem_inc w)) = SEM_GET_SHARED w \<and> SEM_GET_SHARED (snd (sem_dec w)) = SEM_GET_SHARED w"
  using to_value_range [of w]
  by (auto simp: sem_inc_value sem_dec_value Let_def split_beta SEM_MAX_VALUE_def)

text \<open>
  A failing \<open>sem_timedwait\<close> reports \<open>EINVAL\<close>, \<open>ETIMEDOUT\<close> or \<open>EINTR\<close>,
  whatever the clock, the kernel and the other threads do; in particular never \<open>ETIME\<close>.
\<close>

lemma sem_timedwait_errno:
  "sem_timedwait sem abs_timeout rounds = Some (r, e, sem') \<Longrightarrow>
   (r = 0 \<and> e = None) \<or> (r = -1 \<and> e \<in> {Some EINVAL, Some ETIMEDOUT, Some EINTR})"
  by (auto simp: sem_timedwait_def Let_def split_beta
           split: option.splits if_splits dest!: sem_timedwait_loop_errno)

lemma sem_timedwait_errno_example:
  "sem_timedwait (Some 0) (Some (5, 0)) [\<lparr>tw_now = (4, 900000000), tw_futex = -110, tw_wake = 0xfffffffe\<rparr>]
     = Some (-1, Some ETIMEDOUT, Some 0xfffffffe) \<and>
   Some ETIMEDOUT \<in> {Some EINVAL, Some ETIMEDOUT, Some EINTR}"
proof -
  have run: "sem_timedwait (Some 0) (Some (5, 0))
      [\<lparr>tw_now = (4, 900000000), tw_futex = -110, tw_wake = 0xfffffffe\<rparr>]
     = Some (-1, Some ETIMEDOUT, Some 0xfffffffe)"
    by (simp add: sem_timedwait_def Let_def split_beta sem_trydec_value sem_dec_value to_value_eq time_left_def)
  show ?thesis using run sem_timedwait_errno [OF run] by simp
qed

end
