(* ===== verification/Tailq.thy ===== *)
theory Tailq
  imports Prelude
begin

text \<open>
  The tail queue macros of \<^verbatim>\<open>src/bionic/libc/include/sys/queue.h\<close> on an explicit store of
  nodes. A node is a non-zero address; \<open>tqe_prev\<close> and \<open>tqh_last\<close> hold the address of
  the pointer variable that leads to a node, which is the head's \<open>tqh_first\<close> or the
  \<open>tqe_next\<close> of another node.
  \<open>tq_rep q xs\<close> says that the queue links the nodes \<open>xs\<close> in this order; the lemmas
  show that every macro implements the list operation of its name, and the interpretation of
  \<open>fifo_queue\<close> packages what the notification queues rely on.
\<close>

section \<open>The store and the macros\<close>

datatype ploc = HeadFirst | NextOf nat

record 'a tailq =
  tqh_first :: nat
  tqh_last :: ploc
  tqe_next :: "nat \<Rightarrow> nat"
  tqe_prev :: "nat \<Rightarrow> ploc"
  node_val :: "nat \<Rightarrow> 'a"

fun deref :: "'a tailq \<Rightarrow> ploc \<Rightarrow> nat" where
  "deref q HeadFirst = tqh_first q"
| "deref q (NextOf p) = tqe_next q p"

fun store :: "ploc \<Rightarrow> nat \<Rightarrow> 'a tailq \<Rightarrow> 'a tailq" where
  "store HeadFirst v q = q\<lparr>tqh_first := v\<rparr>"
| "store (NextOf p) v q = q\<lparr>tqe_next := (tqe_next q)(p := v)\<rparr>"

definition TAILQ_INIT :: "'a tailq \<Rightarrow> 'a tailq" where
  "TAILQ_INIT q = q\<lparr>tqh_first := 0, tqh_last := HeadFirst\<rparr>"

definition TAILQ_INSERT_HEAD :: "nat \<Rightarrow> 'a tailq \<Rightarrow> 'a tailq" where
  "TAILQ_INSERT_HEAD elm q =
     (let q = q\<lparr>tqe_next := (tqe_next q)(elm := tqh_first q)\<rparr>;
          q = (if tqe_next q elm \<noteq> 0
               then q\<lparr>tqe_prev := (tqe_prev q)(tqh_first q := NextOf elm)\<rparr>
               else q\<lparr>tqh_last := NextOf elm\<rparr>);
          q = q\<lparr>tqh_first := elm\<rparr>
      in q\<lparr>tqe_prev := (tqe_prev q)(elm := HeadFirst)\<rparr>)"

definition TAILQ_INSERT_TAIL :: "nat \<Rightarrow> 'a tailq \<Rightarrow> 'a tailq" where
  "TAILQ_INSERT_TAIL elm q =
     (let q = q\<lparr>tqe_next := (tqe_next q)(elm := 0)\<rparr>;
          q = q\<lparr>tqe_prev := (tqe_prev q)(elm := tqh_last q)\<rparr>;
          q = store (tqh_last q) elm q
      in q\<lparr>tqh_last := NextOf elm\<rparr>)"

definition TAILQ_REMOVE :: "nat \<Rightarrow> 'a tailq \<Rightarrow> 'a tailq" where
  "TAILQ_REMOVE elm q =
     (let q = (if tqe_next q elm \<noteq> 0
               then q\<lparr>tqe_prev := (tqe_prev q)(tqe_next q elm := tqe_prev q elm)\<rparr>
               else q\<lparr>tqh_last := tqe_prev q elm\<rparr>)
      in store (tqe_prev q elm) (tqe_next q elm) q)"

definition TAILQ_EMPTY :: "'a tailq \<Rightarrow> bool" where
  "TAILQ_EMPTY q = (tqh_first q = 0)"

definition TAILQ_FIRST :: "'a tailq \<Rightarrow> nat" where
  "TAILQ_FIRST q = tqh_first q"

definition TAILQ_NEXT :: "nat \<Rightarrow> 'a tailq \<Rightarrow> nat" where
  "TAILQ_NEXT elm q = tqe_next q elm"

section \<open>Linked segments\<close>

text \<open>\<open>tq_seg q l xs l'\<close>: from the pointer at \<open>l\<close> the nodes \<open>xs\<close> follow, and the last one's link is \<open>l'\<close>.\<close>

fun tq_seg :: "'a tailq \<Rightarrow> ploc \<Rightarrow> nat list \<Rightarrow> ploc \<Rightarrow> bool" where
  "tq_seg q l [] l' = (l = l')"
| "tq_seg q l (x # xs) l' = (deref q l = x \<and> tqe_prev q x = l \<and> tq_seg q (NextOf x) xs l')"

definition tq_rep :: "'a tailq \<Rightarrow> nat list \<Rightarrow> bool" where
  "tq_rep q xs = (distinct xs \<and> 0 \<notin> set xs \<and> tq_seg q HeadFirst xs (tqh_last q) \<and> deref q (tqh_last q) = 0)"

lemma deref_store [simp]: "deref (store l v q) l' = (if l' = l then v else deref q l')"
  by (cases l; cases l') auto

lemma store_fields [simp]:
  "tqe_prev (store l v q) = tqe_prev q" "tqh_last (store l v q) = tqh_last q"
  "node_val (store l v q) = node_val q"
  by (cases l; simp)+

lemma store_next: "tqe_next (store l v q) p = (if l = NextOf p then v else tqe_next q p)"
  by (cases l) auto

lemma deref_update_other [simp]:
  "deref (q\<lparr>tqe_prev := f\<rparr>) l = deref q l"
  "deref (q\<lparr>tqh_last := m\<rparr>) l = deref q l"
  "deref (q\<lparr>node_val := g\<rparr>) l = deref q l"
  by (cases l; simp)+

lemma deref_link [simp]:
  "deref (q\<lparr>tqe_next := (tqe_next q)(p := v)\<rparr>) l = (if l = NextOf p then v else deref q l)"
  by (cases l) auto

lemma tq_seg_append: "tq_seg q l (xs @ ys) l' \<longleftrightarrow> (\<exists>m. tq_seg q l xs m \<and> tq_seg q m ys l')"
  by (induction xs arbitrary: l) auto

lemma tq_seg_end: "tq_seg q l xs l' \<Longrightarrow> l' = (if xs = [] then l else NextOf (last xs))"
  by (induction xs arbitrary: l) auto

text \<open>A segment depends on the links it follows, all but the one at its end, and on the back links of its nodes.\<close>

lemma tq_seg_frame:
  assumes "tq_seg q l xs l'" "distinct xs" "l \<notin> NextOf ` set xs"
    and "\<And>m. m \<in> insert l (NextOf ` set xs) \<Longrightarrow> m \<noteq> l' \<Longrightarrow> deref q' m = deref q m"
    and "\<And>x. x \<in> set xs \<Longrightarrow> tqe_prev q' x = tqe_prev q x"
  shows "tq_seg q' l xs l'"
  using assms
proof (induction xs arbitrary: l)
  case Nil
  then show ?case by simp
next
  case (Cons x xs)
  have "l' \<in> NextOf ` set (x # xs)"
    using tq_seg_end [OF Cons.prems(1)] by (auto split: if_splits)
  then have "l \<noteq> l'" using Cons.prems(3) by auto
  then have d: "deref q' l = x" "tqe_prev q' x = l" using Cons.prems by auto
  have "tq_seg q' (NextOf x) xs l'"
    by (rule Cons.IH) (use Cons.prems in auto)
  with d show ?case by simp
qed

section \<open>The macros as list operations\<close>

lemma tq_rep_init: "tq_rep (TAILQ_INIT q) []"
  by (simp add: tq_rep_def TAILQ_INIT_def)

lemma tq_rep_first: "tq_rep q xs \<Longrightarrow> TAILQ_FIRST q = (case xs of [] \<Rightarrow> 0 | x # _ \<Rightarrow> x)"
  by (cases xs) (auto simp: tq_rep_def TAILQ_FIRST_def)

lemma tq_rep_insert_tail:
  assumes rep: "tq_rep q xs" and fresh: "elm \<notin> set xs" "elm \<noteq> 0"
  shows "tq_rep (TAILQ_INSERT_TAIL elm q) (xs @ [elm])"
proof -
  let ?q = "TAILQ_INSERT_TAIL elm q"
  from rep have seg: "tq_seg q HeadFirst xs (tqh_last q)" "distinct xs" "0 \<notin> set xs"
    by (auto simp: tq_rep_def)
  have last: "tqh_last q = (if xs = [] then HeadFirst else NextOf (last xs))"
    using tq_seg_end seg(1) by blast
  then have ne: "tqh_last q \<noteq> NextOf elm" using fresh by (cases xs rule: rev_cases) auto
  have "tq_seg ?q HeadFirst xs (tqh_last q)"
  proof (rule tq_seg_frame [OF seg(1,2)])
    fix m assume "m \<in> insert HeadFirst (NextOf ` set xs)" "m \<noteq> tqh_last q"
    then show "deref ?q m = deref q m"
      using fresh by (auto simp: TAILQ_INSERT_TAIL_def Let_def)
  next
    fix x assume "x \<in> set xs"
    then show "tqe_prev ?q x = tqe_prev q x" using fresh by (auto simp: TAILQ_INSERT_TAIL_def Let_def)
  qed auto
  moreover have "tq_seg ?q (tqh_last q) [elm] (NextOf elm)"
    by (simp add: TAILQ_INSERT_TAIL_def Let_def)
  moreover have "deref ?q (NextOf elm) = 0" "tqh_last ?q = NextOf elm"
    using ne by (simp_all add: TAILQ_INSERT_TAIL_def Let_def store_next)
  ultimately show ?thesis
    using seg fresh by (auto simp: tq_rep_def tq_seg_append)
qed

lemma remove_fields:
  assumes "tqe_next q x \<noteq> x"
  shows "deref (TAILQ_REMOVE x q) m = (if m = tqe_prev q x then tqe_next q x else deref q m)"
    and "tqe_prev (TAILQ_REMOVE x q) y =
           (if tqe_next q x \<noteq> 0 \<and> y = tqe_next q x then tqe_prev q x else tqe_prev q y)"
    and "tqh_last (TAILQ_REMOVE x q) = (if tqe_next q x \<noteq> 0 then tqh_last q else tqe_prev q x)"
  using assms by (simp_all add: TAILQ_REMOVE_def Let_def)

lemma tq_rep_remove:
  assumes rep: "tq_rep q (ys @ x # zs)"
  shows "tq_rep (TAILQ_REMOVE x q) (ys @ zs)"
proof -
  let ?q = "TAILQ_REMOVE x q" and ?l = "tqe_prev q x"
  from rep have d: "distinct (ys @ x # zs)" "0 \<notin> set (ys @ x # zs)" and z: "deref q (tqh_last q) = 0"
    and segs: "tq_seg q HeadFirst ys ?l" "tq_seg q (NextOf x) zs (tqh_last q)"
    by (auto simp: tq_rep_def tq_seg_append)
  have l: "?l = (if ys = [] then HeadFirst else NextOf (last ys))" using tq_seg_end segs(1) by blast
  then have lz: "?l \<notin> NextOf ` set (x # zs)" using d by (cases ys rule: rev_cases) auto
  have nxt: "tqe_next q x = (case zs of [] \<Rightarrow> 0 | w # _ \<Rightarrow> w)"
  proof (cases zs)
    case Nil
    with segs(2) have "tqh_last q = NextOf x" by simp
    with z Nil show ?thesis by simp
  next
    case (Cons w ws)
    with segs(2) show ?thesis by simp
  qed
  then have nx: "tqe_next q x \<noteq> x" using d by (cases zs) auto
  note rf = remove_fields [OF nx]
  have "tq_seg ?q HeadFirst ys ?l"
  proof (rule tq_seg_frame [OF segs(1)])
    show "tqe_prev ?q y = tqe_prev q y" if "y \<in> set ys" for y
      using that d nxt by (cases zs) (auto simp: rf)
  qed (use d in \<open>auto simp: rf\<close>)
  moreover have "tq_seg ?q ?l zs (tqh_last ?q) \<and> deref ?q (tqh_last ?q) = 0"
  proof (cases zs)
    case Nil
    then show ?thesis using nxt by (simp add: rf)
  next
    case (Cons w ws)
    have w: "tqe_next q x = w" "w \<noteq> 0" "w \<notin> set ws" using nxt d Cons by auto
    have "tqh_last q \<in> NextOf ` set zs" using tq_seg_end [OF segs(2)] Cons by auto
    then have ll: "tqh_last q \<noteq> ?l" using lz by auto
    have "tq_seg ?q (NextOf w) ws (tqh_last q)"
    proof (rule tq_seg_frame)
      show "tq_seg q (NextOf w) ws (tqh_last q)" using segs(2) Cons by simp
      show "deref ?q m = deref q m" if "m \<in> insert (NextOf w) (NextOf ` set ws)" for m
        using that lz Cons by (auto simp: rf)
      show "tqe_prev ?q y = tqe_prev q y" if "y \<in> set ws" for y
        using that w by (auto simp: rf)
    qed (use d Cons in auto)
    then show ?thesis using Cons ll z w by (simp add: rf)
  qed
  ultimately show ?thesis using d by (auto simp: tq_rep_def tq_seg_append)
qed

lemma insert_head_fields:
  assumes "elm \<noteq> tqh_first q"
  shows "deref (TAILQ_INSERT_HEAD elm q) m =
           (if m = HeadFirst then elm else if m = NextOf elm then tqh_first q else deref q m)"
    and "tqe_prev (TAILQ_INSERT_HEAD elm q) y =
           (if y = elm then HeadFirst
            else if tqh_first q \<noteq> 0 \<and> y = tqh_first q then NextOf elm else tqe_prev q y)"
    and "tqh_last (TAILQ_INSERT_HEAD elm q) = (if tqh_first q \<noteq> 0 then tqh_last q else NextOf elm)"
  using assms by (cases m; simp add: TAILQ_INSERT_HEAD_def Let_def)+

lemma tq_rep_insert_head:
  assumes rep: "tq_rep q xs" and fresh: "elm \<notin> set xs" "elm \<noteq> 0"
  shows "tq_rep (TAILQ_INSERT_HEAD elm q) (elm # xs)"
proof -
  let ?q = "TAILQ_INSERT_HEAD elm q"
  from rep have d: "distinct xs" "0 \<notin> set xs" "deref q (tqh_last q) = 0"
    and seg: "tq_seg q HeadFirst xs (tqh_last q)"
    by (auto simp: tq_rep_def)
  have first: "tqh_first q = (case xs of [] \<Rightarrow> 0 | x # _ \<Rightarrow> x)"
    using tq_rep_first [OF rep] by (simp add: TAILQ_FIRST_def)
  then have ne: "elm \<noteq> tqh_first q" using fresh by (cases xs) auto
  have links: "tqe_next ?q elm = tqh_first q" "tqh_first ?q = elm"
    using insert_head_fields(1) [OF ne, of "NextOf elm"] insert_head_fields(1) [OF ne, of HeadFirst] by auto
  note hf = insert_head_fields [OF ne] links
  have "tq_seg ?q (NextOf elm) xs (tqh_last ?q) \<and> deref ?q (tqh_last ?q) = 0"
  proof (cases xs)
    case Nil
    then show ?thesis using first by (simp add: hf)
  next
    case (Cons w ws)
    have w: "tqh_first q = w" "w \<noteq> 0" "w \<noteq> elm" "elm \<notin> set ws" "w \<notin> set ws"
      using first d fresh Cons by auto
    have last: "tqh_last q \<in> NextOf ` set xs" using tq_seg_end [OF seg] Cons by auto
    have "tq_seg ?q (NextOf w) ws (tqh_last q)"
    proof (rule tq_seg_frame)
      show "tq_seg q (NextOf w) ws (tqh_last q)" using seg Cons by simp
      show "deref ?q m = deref q m" if "m \<in> insert (NextOf w) (NextOf ` set ws)" for m
        using that w by (auto simp: hf)
      show "tqe_prev ?q y = tqe_prev q y" if "y \<in> set ws" for y
        using that w by (auto simp: hf)
    qed (use d Cons in auto)
    moreover have "tqh_last q \<noteq> NextOf elm" "tqh_last q \<noteq> HeadFirst" using last fresh by auto
    ultimately show ?thesis using Cons w d(3) by (simp add: hf)
  qed
  then show ?thesis using d fresh ne by (simp add: tq_rep_def hf)
qed

section \<open>The first-in-first-out contract\<close>

text \<open>
  A queue of values kept in nodes: \<open>holds q ps vs\<close> says that the nodes \<open>ps\<close> are
  queued with the values \<open>vs\<close>. A node may be queued again once it has left the queue.
\<close>

locale fifo_queue =
  fixes holds :: "'q \<Rightarrow> 'p list \<Rightarrow> 'v list \<Rightarrow> bool"
    and null :: 'p
    and enq :: "'p \<Rightarrow> 'v \<Rightarrow> 'q \<Rightarrow> 'q"
    and deq :: "'q \<Rightarrow> ('p \<times> 'v \<times> 'q) option"
  assumes holds_enq: "holds q ps vs \<Longrightarrow> p \<notin> set ps \<Longrightarrow> p \<noteq> null \<Longrightarrow> holds (enq p v q) (ps @ [p]) (vs @ [v])"
    and deq_empty: "holds q [] [] \<Longrightarrow> deq q = None"
    and deq_first: "holds q (p # ps) (v # vs) \<Longrightarrow> \<exists>q'. deq q = Some (p, v, q') \<and> holds q' ps vs"
begin

lemma holds_enqs:
  "holds q ps vs \<Longrightarrow> distinct (ps @ map fst xs) \<Longrightarrow> null \<notin> fst ` set xs \<Longrightarrow>
   holds (fold (\<lambda>(p, v). enq p v) xs q) (ps @ map fst xs) (vs @ map snd xs)"
proof (induction xs arbitrary: q ps vs)
  case Nil
  then show ?case by simp
next
  case (Cons x xs)
  obtain p v where x: "x = (p, v)" by force
  have "holds (enq p v q) (ps @ [p]) (vs @ [v])"
    using Cons.prems x by (intro holds_enq) auto
  then have "holds (fold (\<lambda>(p, v). enq p v) xs (enq p v q)) ((ps @ [p]) @ map fst xs) ((vs @ [v]) @ map snd xs)"
    by (rule Cons.IH) (use Cons.prems x in auto)
  with x show ?case by simp
qed

text \<open>Whatever was enqueued behind it, the oldest value leaves first.\<close>

lemma oldest_first:
  assumes "holds q (p # ps) (v # vs)" "distinct ((p # ps) @ map fst xs)" "null \<notin> fst ` set xs"
  shows "\<exists>q'. deq (fold (\<lambda>(p, v). enq p v) xs q) = Some (p, v, q') \<and> holds q' (ps @ map fst xs) (vs @ map snd xs)"
  using holds_enqs [OF assms] by (auto intro: deq_first)

end

text \<open>Filling a node and linking it at the tail; unlinking the first node.\<close>

definition tq_enqueue :: "nat \<Rightarrow> 'a \<Rightarrow> 'a tailq \<Rightarrow> 'a tailq" where
  "tq_enqueue p v q = TAILQ_INSERT_TAIL p (q\<lparr>node_val := (node_val q)(p := v)\<rparr>)"

definition tq_dequeue :: "'a tailq \<Rightarrow> (nat \<times> 'a \<times> 'a tailq) option" where
  "tq_dequeue q =
     (let temp = TAILQ_FIRST q in
      if temp = 0 then None else Some (temp, node_val q temp, TAILQ_REMOVE (TAILQ_FIRST q) q))"

definition tq_holds :: "'a tailq \<Rightarrow> nat list \<Rightarrow> 'a list \<Rightarrow> bool" where
  "tq_holds q ps vs = (tq_rep q ps \<and> vs = map (node_val q) ps)"

lemma tq_rep_node_val [simp]: "tq_rep (q\<lparr>node_val := f\<rparr>) xs = tq_rep q xs"
proof -
  have "tq_seg (q\<lparr>node_val := f\<rparr>) l xs l' = tq_seg q l xs l'" for l l'
    by (induction xs arbitrary: l) auto
  then show ?thesis by (simp add: tq_rep_def)
qed

lemma node_val_macros [simp]:
  "node_val (TAILQ_INSERT_TAIL p q) = node_val q" "node_val (TAILQ_REMOVE p q) = node_val q"
  by (simp_all add: TAILQ_INSERT_TAIL_def TAILQ_REMOVE_def Let_def)

interpretation tailq: fifo_queue tq_holds 0 tq_enqueue tq_dequeue
proof unfold_locales
  fix q :: "'a tailq" and ps vs p v
  assume "tq_holds q ps vs" "p \<notin> set ps" "p \<noteq> 0"
  then show "tq_holds (tq_enqueue p v q) (ps @ [p]) (vs @ [v])"
    by (auto simp: tq_holds_def tq_enqueue_def intro!: tq_rep_insert_tail)
next
  fix q :: "'a tailq"
  assume "tq_holds q [] []"
  then show "tq_dequeue q = None"
    using tq_rep_first [of q "[]"] by (simp add: tq_holds_def tq_dequeue_def)
next
  fix q :: "'a tailq" and p ps v vs
  assume h: "tq_holds q (p # ps) (v # vs)"
  then have "TAILQ_FIRST q = p" "p \<noteq> 0" "tq_rep (TAILQ_REMOVE p q) ps"
    using tq_rep_first [of q "p # ps"] tq_rep_remove [of q "[]" p ps]
    by (auto simp: tq_holds_def tq_rep_def)
  with h show "\<exists>q'. tq_dequeue q = Some (p, v, q') \<and> tq_holds q' ps vs"
    by (auto simp: tq_dequeue_def tq_holds_def)
qed

section \<open>Properties\<close>

text \<open>
  C16. The pointer manipulations of \<open>TAILQ_INSERT_TAIL\<close> and \<open>TAILQ_REMOVE\<close> keep the
  tail queue well formed and implement a list: the values in the nodes leave in the order in which
  they were inserted.
\<close>

theorem tailq_first_in_first_out:
  assumes "tq_holds q (p # ps) (v # vs)" "distinct ((p # ps) @ map fst xs)" "0 \<notin> fst ` set xs"
  shows "\<exists>q'. tq_dequeue (fold (\<lambda>(p, v). tq_enqueue p v) xs q) = Some (p, v, q') \<and>
              tq_holds q' (ps @ map fst xs) (vs @ map snd xs)"
  using assms by (rule tailq.oldest_first)

text \<open>A queue that starts empty at its initialisation, with three nodes inserted.\<close>

theorem tailq_first_in_first_out_witness:
  "let q0 = \<lparr>tqh_first = 9, tqh_last = NextOf 9, tqe_next = (\<lambda>_. 9), tqe_prev = (\<lambda>_. NextOf 9), node_val = (\<lambda>_. [])\<rparr>
   in \<exists>q'. tq_dequeue (fold (\<lambda>(p, v). tq_enqueue p v) [(7, ''b''), (4, ''c'')] (tq_enqueue 5 ''a'' (TAILQ_INIT q0)))
       = Some (5, ''a'', q') \<and> tq_holds q' [7, 4] [''b'', ''c'']"
proof -
  define q0 :: "string tailq" where
    "q0 = \<lparr>tqh_first = 9, tqh_last = NextOf 9, tqe_next = (\<lambda>_. 9), tqe_prev = (\<lambda>_. NextOf 9), node_val = (\<lambda>_. [])\<rparr>"
  have "tq_holds (TAILQ_INIT q0) [] []" by (simp add: tq_holds_def tq_rep_init)
  then have "tq_holds (tq_enqueue 5 ''a'' (TAILQ_INIT q0)) [5] [''a'']"
    using tailq.holds_enq [of "TAILQ_INIT q0" "[]" "[]" 5 "''a''"] by simp
  then show ?thesis
    using tailq_first_in_first_out [of "tq_enqueue 5 ''a'' (TAILQ_INIT q0)" 5 "[]" "''a''" "[]" "[(7, ''b''), (4, ''c'')]"]
    by (simp add: q0_def Let_def)
qed

end
