(* ===== verification/Notif_Queue.thy ===== *)
theory Notif_Queue
  imports Bionic_Sem Tailq
begin

text \<open>
  The notification queue between the read thread of a serial driver and the threads that call its
  \<open>get_notification\<close>: \<open>push_X_notificaiton\<close> and \<open>pop_X_notificaiton\<close> of
  \<^verbatim>\<open>canbox.cpp\<close>, \<^verbatim>\<open>mpeg.cpp\<close> and \<^verbatim>\<open>ipod.cpp\<close>, which are the same text for three
  notification types. The tail queue is the list it represents (theory \<open>Tailq\<close>), the semaphore
  its word (theory \<open>Bionic_Sem\<close>). First the two functions run alone, then every interleaving of
  any number of threads inside them, as a step relation in which a section under the mutex is one
  step.
\<close>

section \<open>The two functions\<close>

record 'n nqueue =
  nq_head :: "'n list"
  nq_sem :: u32

text \<open>What \<open>X_open\<close> sets up: an empty queue and a semaphore of value 0.\<close>

definition nq_init :: "'n nqueue" where
  "nq_init = \<lparr>nq_head = [], nq_sem = SEMCOUNT_FROM_VALUE 0\<rparr>"

text \<open>
  \<open>push\<close>: \<open>p_new_node\<close> is the address \<open>malloc\<close> returned. When it is null the function
  notes \<open>-ENOMEM\<close> but goes on to write through it, which is \<^term>\<open>None\<close> here.
\<close>

definition push_notification :: "nat \<Rightarrow> 'n \<Rightarrow> 'n nqueue \<Rightarrow> (int \<times> 'n nqueue) option" where
  "push_notification p_new_node n q =
     (let ret = (if p_new_node = 0 then - errno_num ENOMEM else 0) in
      if p_new_node = 0 then None
      else
        let q = q\<lparr>nq_head := nq_head q @ [n]\<rparr>;
            q = q\<lparr>nq_sem := post (nq_sem q)\<rparr>
        in Some (ret, q))"

datatype 'a outcome = Blocked | Fault | Done 'a

text \<open>\<open>pop\<close>, given the words the waiting thread finds at its wake-ups; reading through the null first element is a fault.\<close>

definition pop_notification :: "u32 list \<Rightarrow> 'n nqueue \<Rightarrow> (int \<times> 'n \<times> 'n nqueue) outcome" where
  "pop_notification wakes q =
     (case sem_wait_loop wakes (nq_sem q) of
        None \<Rightarrow> Blocked
      | Some w \<Rightarrow>
          let q = q\<lparr>nq_sem := w\<rparr> in
          (case nq_head q of
             [] \<Rightarrow> Fault
           | temp # rest \<Rightarrow> Done (0, temp, q\<lparr>nq_head := rest\<rparr>)))"

section \<open>Interleavings\<close>

text \<open>
  \<open>ns_posting\<close> counts the threads that have inserted a node and not yet posted,
  \<open>ns_granted\<close> those whose \<open>sem_wait\<close> has returned and that have not yet removed a node.
  \<open>ns_pushed\<close> and \<open>ns_popped\<close> record the history.
\<close>

record 'n nsys =
  ns_queue :: "'n nqueue"
  ns_posting :: nat
  ns_granted :: nat
  ns_pushed :: "'n list"
  ns_popped :: "'n list"

definition ns_init :: "'n nsys" where
  "ns_init = \<lparr>ns_queue = nq_init, ns_posting = 0, ns_granted = 0, ns_pushed = [], ns_popped = []\<rparr>"

inductive ns_step :: "'n nsys \<Rightarrow> 'n nsys \<Rightarrow> bool" where
  insert: "ns_step s (s\<lparr>ns_queue := (ns_queue s)\<lparr>nq_head := nq_head (ns_queue s) @ [n]\<rparr>,
                        ns_posting := Suc (ns_posting s), ns_pushed := ns_pushed s @ [n]\<rparr>)"
| post_sem: "ns_posting s = Suc k \<Longrightarrow>
     ns_step s (s\<lparr>ns_queue := (ns_queue s)\<lparr>nq_sem := post (nq_sem (ns_queue s))\<rparr>, ns_posting := k\<rparr>)"
| wait_taken: "sem_dec (nq_sem (ns_queue s)) = (old, w) \<Longrightarrow> old > 0 \<Longrightarrow>
     ns_step s (s\<lparr>ns_queue := (ns_queue s)\<lparr>nq_sem := w\<rparr>, ns_granted := Suc (ns_granted s)\<rparr>)"
| wait_sleeps: "sem_dec (nq_sem (ns_queue s)) = (old, w) \<Longrightarrow> \<not> old > 0 \<Longrightarrow>
     ns_step s (s\<lparr>ns_queue := (ns_queue s)\<lparr>nq_sem := w\<rparr>\<rparr>)"
| remove: "ns_granted s = Suc k \<Longrightarrow> nq_head (ns_queue s) = n # rest \<Longrightarrow>
     ns_step s (s\<lparr>ns_queue := (ns_queue s)\<lparr>nq_head := rest\<rparr>, ns_granted := k, ns_popped := ns_popped s @ [n]\<rparr>)"

inductive ns_reach :: "'n nsys \<Rightarrow> bool" where
  start: "ns_reach ns_init"
| step: "ns_reach s \<Longrightarrow> ns_step s t \<Longrightarrow> ns_reach t"

text \<open>A thread is about to read the first element of an empty queue.\<close>

definition ns_fault :: "'n nsys \<Rightarrow> bool" where
  "ns_fault s = (ns_granted s > 0 \<and> nq_head (ns_queue s) = [])"

section \<open>The invariant\<close>

abbreviation sem_limit :: nat where
  "sem_limit \<equiv> nat SEM_MAX_VALUE"

definition ns_credit :: "'n nsys \<Rightarrow> nat" where
  "ns_credit s = sem_tokens (nq_sem (ns_queue s)) + ns_granted s + ns_posting s"

definition ns_inv :: "'n nsys \<Rightarrow> bool" where
  "ns_inv s = (ns_credit s \<le> length (nq_head (ns_queue s)) \<and>
     ns_popped s @ nq_head (ns_queue s) = ns_pushed s \<and>
     (length (ns_pushed s) \<le> sem_limit \<longrightarrow> ns_credit s = length (nq_head (ns_queue s))))"

lemma sem_dec_tokens:
  assumes "sem_dec w = (old, w')"
  shows "old > 0 \<longleftrightarrow> sem_tokens w > 0" and "sem_tokens w' = sem_tokens w - 1"
  using sem_dec_value [of w] assms by (auto simp: sem_tokens_def split: if_splits)

lemma ns_inv_init: "ns_inv ns_init"
  by (simp add: ns_inv_def ns_credit_def ns_init_def nq_init_def SEMCOUNT_FROM_VALUE_def)

lemma ns_inv_step: "ns_step s t \<Longrightarrow> ns_inv s \<Longrightarrow> ns_inv t"
proof (induction rule: ns_step.induct)
  case (insert s n)
  then show ?case by (auto simp: ns_inv_def ns_credit_def)
next
  case (post_sem s k)
  let ?w = "nq_sem (ns_queue s)"
  have tok: "sem_tokens (post ?w) = min sem_limit (Suc (sem_tokens ?w))"
    by (rule bionic.tokens_give)
  have "length (nq_head (ns_queue s)) \<le> length (ns_pushed s)"
    using post_sem by (auto simp: ns_inv_def dest: arg_cong [where f = length])
  then have "sem_tokens ?w < sem_limit" if "length (ns_pushed s) \<le> sem_limit"
    using that post_sem by (auto simp: ns_inv_def ns_credit_def)
  with post_sem tok show ?case by (auto simp: ns_inv_def ns_credit_def)
next
  case (wait_taken s old w)
  then show ?case using sem_dec_tokens [OF wait_taken(1)] by (auto simp: ns_inv_def ns_credit_def)
next
  case (wait_sleeps s old w)
  then show ?case using sem_dec_tokens [OF wait_sleeps(1)] by (auto simp: ns_inv_def ns_credit_def)
next
  case (remove s k n rest)
  then show ?case by (auto simp: ns_inv_def ns_credit_def)
qed

lemma ns_inv_reach: "ns_reach s \<Longrightarrow> ns_inv s"
  by (induction rule: ns_reach.induct) (auto intro: ns_inv_init ns_inv_step)

text \<open>The two functions run alone are paths of the step relation.\<close>

lemma push_is_two_steps:
  assumes "push_notification p n (ns_queue s) = Some (r, q)"
  shows "\<exists>t u. ns_step s t \<and> ns_step t u \<and> ns_queue u = q \<and> ns_posting u = ns_posting s \<and>
           ns_granted u = ns_granted s \<and> ns_pushed u = ns_pushed s @ [n] \<and> ns_popped u = ns_popped s"
proof -
  from assms have q: "q = (ns_queue s)\<lparr>nq_head := nq_head (ns_queue s) @ [n], nq_sem := post (nq_sem (ns_queue s))\<rparr>"
    by (simp add: push_notification_def Let_def split: if_splits)
  define t where "t = s\<lparr>ns_queue := (ns_queue s)\<lparr>nq_head := nq_head (ns_queue s) @ [n]\<rparr>,
                        ns_posting := Suc (ns_posting s), ns_pushed := ns_pushed s @ [n]\<rparr>"
  have "ns_step s t" unfolding t_def by (rule ns_step.insert)
  moreover have "ns_step t (t\<lparr>ns_queue := (ns_queue t)\<lparr>nq_sem := post (nq_sem (ns_queue t))\<rparr>, ns_posting := ns_posting s\<rparr>)"
    by (rule ns_step.post_sem) (simp add: t_def)
  ultimately show ?thesis using q by (intro exI conjI) (assumption | simp add: t_def)+
qed

lemma pop_is_two_steps:
  assumes "pop_notification [] (ns_queue s) = Done (r, n, q)"
  shows "\<exists>t u. ns_step s t \<and> ns_step t u \<and> ns_queue u = q \<and> ns_posting u = ns_posting s \<and>
           ns_granted u = ns_granted s \<and> ns_pushed u = ns_pushed s \<and> ns_popped u = ns_popped s @ [n]"
proof -
  obtain old w where dec: "sem_dec (nq_sem (ns_queue s)) = (old, w)" by force
  from assms dec obtain rest where h: "old > 0" "nq_head (ns_queue s) = n # rest"
      "q = (ns_queue s)\<lparr>nq_sem := w, nq_head := rest\<rparr>"
    by (auto simp: pop_notification_def Let_def split: option.splits list.splits if_splits)
  define t where "t = s\<lparr>ns_queue := (ns_queue s)\<lparr>nq_sem := w\<rparr>, ns_granted := Suc (ns_granted s)\<rparr>"
  have "ns_step s t" unfolding t_def by (rule ns_step.wait_taken [OF dec h(1)])
  moreover have "ns_step t (t\<lparr>ns_queue := (ns_queue t)\<lparr>nq_head := rest\<rparr>, ns_granted := ns_granted s,
      ns_popped := ns_popped t @ [n]\<rparr>)"
    by (rule ns_step.remove) (simp_all add: t_def h)
  ultimately show ?thesis using h by (intro exI conjI) (assumption | simp add: t_def)+
qed

section \<open>Properties\<close>

text \<open>
  C14. In every interleaving, a thread that has passed \<open>sem_wait\<close> finds a node: the case
  "Queue NULL while sem get access", after which the code reads through a null pointer, does not
  occur, even when the semaphore has reached its largest value.
\<close>

theorem pop_never_faults: "ns_reach s \<Longrightarrow> \<not> ns_fault s"
  using ns_inv_reach [of s] by (auto simp: ns_inv_def ns_credit_def ns_fault_def)

text \<open>A concrete run: one thread inserts and posts, another waits.\<close>

lemma ns_reach_example:
  "ns_reach \<lparr>ns_queue = \<lparr>nq_head = [n], nq_sem = 0\<rparr>, ns_posting = 0, ns_granted = 1, ns_pushed = [n], ns_popped = []\<rparr>"
proof -
  have z: "sem_dec 2 = (1, 0)" "post 0 = 2"
    by (simp_all add: sem_dec_def post_eq sem_inc_def Let_def SEMCOUNT_SHARED_MASK_def SEMCOUNT_VALUE_MASK_def
        SEMCOUNT_TO_VALUE_def SEMCOUNT_DECREMENT_def SEMCOUNT_INCREMENT_def SEM_MAX_VALUE_def)
  have a: "ns_reach (ns_init\<lparr>ns_queue := \<lparr>nq_head = [n], nq_sem = 0\<rparr>, ns_posting := 1, ns_pushed := [n]\<rparr>)"
    using ns_reach.step [OF ns_reach.start ns_step.insert [of ns_init n]]
    by (simp add: ns_init_def nq_init_def SEMCOUNT_FROM_VALUE_def)
  have b: "ns_reach (ns_init\<lparr>ns_queue := \<lparr>nq_head = [n], nq_sem = 2\<rparr>, ns_posting := 0, ns_pushed := [n]\<rparr>)"
    using ns_reach.step [OF a ns_step.post_sem [of _ 0]] z by (simp add: ns_init_def)
  show ?thesis
    using ns_reach.step [OF b ns_step.wait_taken [of _ 1 0]] z by (simp add: ns_init_def)
qed

theorem pop_never_faults_witness:
  "\<not> ns_fault \<lparr>ns_queue = \<lparr>nq_head = [3::nat], nq_sem = 0\<rparr>, ns_posting = 0, ns_granted = 1, ns_pushed = [3], ns_popped = []\<rparr>"
  by (rule pop_never_faults [OF ns_reach_example])

text \<open>
  C15. Notifications are delivered in the order in which they were pushed, none lost and none
  delivered twice; and no wake-up is lost: while no thread is between its two steps and fewer than
  \<open>2 ^ 30\<close> notifications have been pushed, the semaphore counts exactly the queued ones.
\<close>

theorem delivery_in_order:
  assumes "ns_reach s"
  shows "ns_pushed s = ns_popped s @ nq_head (ns_queue s) \<and>
    (ns_posting s = 0 \<and> ns_granted s = 0 \<and> length (ns_pushed s) \<le> sem_limit
       \<longrightarrow> sem_tokens (nq_sem (ns_queue s)) = length (nq_head (ns_queue s)))"
  using ns_inv_reach [OF assms] by (auto simp: ns_inv_def ns_credit_def)

theorem delivery_in_order_witness:
  "let s = \<lparr>ns_queue = \<lparr>nq_head = [3::nat], nq_sem = 0\<rparr>, ns_posting = 0, ns_granted = 1, ns_pushed = [3], ns_popped = []\<rparr>
   in ns_reach s \<and> ns_pushed s = ns_popped s @ nq_head (ns_queue s)"
  using delivery_in_order [OF ns_reach_example [of "3::nat"]] ns_reach_example [of "3::nat"] by (simp add: Let_def)

end
