(* ===== verification/Serial.thy ===== *)
theory Serial
  imports Notif_Queue
begin

text \<open>
  What the three serial drivers share: the shape of one turn of the loop of their
  \<open>check_full_command\<close>, what the kernel may answer to their read thread, and, as the locale
  \<open>receive_buffer\<close>, the argument that a read thread whose \<open>check_full_command\<close> leaves
  at most \<open>keep\<close> bytes copies every read inside \<open>tty_buffer\<close>.
\<close>

section \<open>Shapes\<close>

text \<open>A turn of a loop body: it returns from the function with a result, or the loop goes on.\<close>

datatype ('r, 's) turn = Return 'r | Continue 's

text \<open>
  One round of \<open>read_thread_func\<close>: \<open>select\<close> fails, \<open>read\<close> fails, or \<open>read\<close> delivers bytes.
\<close>

datatype read_event = Select_failed | Read_failed | Read_bytes bytes

text \<open>Whether the round delivers no more bytes than the \<open>buf\<close> of the thread holds.\<close>

fun fits_buf :: "nat \<Rightarrow> read_event \<Rightarrow> bool" where
  "fits_buf m (Read_bytes bs) = (length bs \<le> m)"
| "fits_buf m Select_failed = True"
| "fits_buf m Read_failed = True"

fun event_bytes :: "read_event \<Rightarrow> bytes" where
  "event_bytes (Read_bytes bs) = bs"
| "event_bytes Select_failed = []"
| "event_bytes Read_failed = []"

section \<open>Bytes\<close>

text \<open>The loop of the checksum functions of the MPEG and the iPod driver, from index \<open>i\<close> on.\<close>

fun sum_bytes :: "bytes \<Rightarrow> nat \<Rightarrow> nat \<Rightarrow> u8 \<Rightarrow> u8 option" where
  "sum_bytes data i 0 checksum = Some checksum"
| "sum_bytes data i (Suc n) checksum = do { b \<leftarrow> rd data i; sum_bytes data (Suc i) n (checksum + b) }"

text \<open>Writing bytes through a moving pointer.\<close>

fun put_bytes :: "bytes \<Rightarrow> nat \<Rightarrow> bytes \<Rightarrow> bytes option" where
  "put_bytes buffer p [] = Some buffer"
| "put_bytes buffer p (x # xs) = do { buffer \<leftarrow> wr buffer p x; put_bytes buffer (p + 1) xs }"

lemma sum_bytes_eq: "i + n \<le> length a \<Longrightarrow> sum_bytes a i n s = Some (s + sum_list (take n (drop i a)))"
  by (induction n arbitrary: i s) (simp_all add: rd_def take_Suc_drop add.assoc)

text \<open>Writing through a moving pointer replaces a segment.\<close>

lemma put_bytes_eq:
  "p + length xs \<le> length b \<Longrightarrow> put_bytes b p xs = Some (take p b @ xs @ drop (p + length xs) b)"
proof (induction xs arbitrary: b p)
  case (Cons x xs)
  then show ?case by (simp add: wr_def upd_conv_take_nth_drop take_Suc_conv_app_nth add_ac)
qed simp

section \<open>The receive buffer\<close>

text \<open>
  The static data of the read thread; each driver extends the record by its own. The 16 extra
  bytes are in the source.
\<close>

abbreviation MAX_BUFFER_STRING :: nat where "MAX_BUFFER_STRING \<equiv> 512"

record rx =
  tty_buffer :: bytes
  tmp_buffer :: bytes
  tty_buffer_pos :: int

text \<open>
  \<open>read_thread_func\<close>: the part of a round that appends the bytes read, and the thread. It
  returns whether the thread has ended; \<open>retry_times\<close> is never reset.
\<close>

definition rx_fill :: "bytes \<Rightarrow> 'a rx_scheme \<Rightarrow> 'a rx_scheme option" where
  "rx_fill buf c =
     do {
       b \<leftarrow> memcpy_at (tty_buffer c) (nat (tty_buffer_pos c)) buf 0 (int (length buf));
       Some (c\<lparr>tty_buffer := b, tty_buffer_pos := tty_buffer_pos c + int (length buf)\<rparr>)
     }"

fun read_thread :: "nat \<Rightarrow> ('a rx_scheme \<Rightarrow> 'a rx_scheme option) \<Rightarrow> nat \<Rightarrow> read_event list \<Rightarrow> 'a rx_scheme \<Rightarrow>
    (bool \<times> 'a rx_scheme) option" where
  "read_thread max_retry_times check retry_times [] c = Some (False, c)"
| "read_thread max_retry_times check retry_times (Select_failed # es) c = read_thread max_retry_times check retry_times es c"
| "read_thread max_retry_times check retry_times (Read_failed # es) c =
     (if retry_times + 1 > max_retry_times then Some (True, c)
      else read_thread max_retry_times check (retry_times + 1) es c)"
| "read_thread max_retry_times check retry_times (Read_bytes bs # es) c =
     do { c \<leftarrow> rx_fill bs c; c \<leftarrow> check c; read_thread max_retry_times check retry_times es c }"

lemma read_thread_snoc:
  "read_thread m check r es c = Some (False, d) \<Longrightarrow>
     read_thread m check r (es @ [Read_bytes bs]) c = do { u \<leftarrow> rx_fill bs d; v \<leftarrow> check u; Some (False, v) }"
proof (induction es arbitrary: r c)
  case (Cons e es)
  then show ?case by (cases e) (auto simp: bind_eq_Some_conv split: if_splits)
next
  case Nil
  have "read_thread m check r [] = (\<lambda>v. Some (False, v))" by (rule ext) simp
  with Nil show ?case by simp
qed

text \<open>The shape of the buffers, and the bytes received and not yet used.\<close>

definition rx_ok :: "'a rx_scheme \<Rightarrow> bool" where
  "rx_ok c = (length (tty_buffer c) = MAX_BUFFER_STRING + 16 \<and> length (tmp_buffer c) = MAX_BUFFER_STRING + 16 \<and>
     0 \<le> tty_buffer_pos c \<and> tty_buffer_pos c \<le> int (MAX_BUFFER_STRING + 16))"

definition rx_pending :: "'a rx_scheme \<Rightarrow> bytes" where
  "rx_pending c = take (nat (tty_buffer_pos c)) (tty_buffer c)"

lemma rx_okD:
  "rx_ok c \<Longrightarrow> length (tty_buffer c) = 528"
  "rx_ok c \<Longrightarrow> length (tmp_buffer c) = 528"
  "rx_ok c \<Longrightarrow> 0 \<le> tty_buffer_pos c"
  "rx_ok c \<Longrightarrow> tty_buffer_pos c \<le> 528"
  by (simp_all add: rx_ok_def)

lemma length_rx_pending: "rx_ok c \<Longrightarrow> length (rx_pending c) = nat (tty_buffer_pos c)"
  by (auto simp: rx_pending_def rx_ok_def)

lemma rx_fill_ok:
  assumes "rx_ok c" "tty_buffer_pos c + int (length bs) \<le> int (MAX_BUFFER_STRING + 16)"
  obtains d where "rx_fill bs c = Some d" "rx_ok d" "tty_buffer_pos d = tty_buffer_pos c + int (length bs)"
    "rx_pending d = rx_pending c @ bs" "rx.more d = rx.more c"
proof -
  let ?p = "nat (tty_buffer_pos c)"
  let ?b = "take ?p (tty_buffer c) @ bs @ drop (?p + length bs) (tty_buffer c)"
  from assms have p: "?p + length bs \<le> 528" "length (tty_buffer c) = 528" "0 \<le> tty_buffer_pos c"
    by (auto simp: rx_ok_def)
  then have "memcpy_at (tty_buffer c) ?p bs 0 (int (length bs)) = Some ?b"
    by (simp add: memcpy_at_def)
  then have "rx_fill bs c = Some (c\<lparr>tty_buffer := ?b, tty_buffer_pos := tty_buffer_pos c + int (length bs)\<rparr>)"
    by (simp add: rx_fill_def)
  then show ?thesis
    by (rule that) (use assms p in \<open>simp_all add: rx_ok_def rx_pending_def nat_add_distrib\<close>)
qed

text \<open>Nothing but zeros behind the bytes received.\<close>

definition rx_clear :: "'a rx_scheme \<Rightarrow> bool" where
  "rx_clear c = (\<forall>i. nat (tty_buffer_pos c) \<le> i \<and> i < 528 \<longrightarrow> tty_buffer c ! i = 0)"

lemma memcpy_to_front:
  assumes "length b = 528" "h + k \<le> 528"
  shows "\<exists>b'. memcpy_at b 0 b h (int k) = Some b' \<and> length b' = 528 \<and> take k b' = take k (drop h b)"
  using assms by (simp add: memcpy_at_def)

text \<open>
  The idiom the drivers use to move \<open>k\<close> bytes from index \<open>h\<close> to the front, through
  \<open>tmp_buffer\<close>, which is cleared afterwards.
\<close>

lemma rx_shift:
  assumes "length b = 528" "length t = 528" "h + k \<le> 528"
  shows "memcpy_at t 0 b h (int k) = Some (take k (drop h b) @ drop k t)"
    and "memcpy_at b 0 (take k (drop h b) @ drop k t) 0 (int k) = Some (take k (drop h b) @ drop k b)"
    and "memset_at (take k (drop h b) @ drop k t) 0 0 (512 + 16) = Some (replicate 528 0)"
  using assms by (simp_all add: memcpy_at_def memset_at_def)

text \<open>The same after the first \<open>m\<close> bytes were cleared, for the bytes behind them, with what follows cleared.\<close>

lemma rx_consume:
  assumes "length b = 528" "length t = 528" "m + k \<le> 528"
  defines "b1 \<equiv> replicate m 0 @ drop m b" and "r \<equiv> take k (drop m b)"
  shows "memset_at b 0 0 (int m) = Some b1"
    and "memcpy_at t 0 b1 m (int k) = Some (r @ drop k t)"
    and "memcpy_at b1 0 (r @ drop k t) 0 (int k) = Some (r @ drop k b1)"
    and "memset_at (r @ drop k t) 0 0 (512 + 16) = Some (replicate 528 0)"
    and "memset_at (r @ drop k b1) 0 0 (int MAX_BUFFER_STRING + 16) = Some (replicate 528 0)"
    and "memset_at (r @ drop k b1) k 0 (int MAX_BUFFER_STRING + 16 - int k) = Some (r @ replicate (528 - k) 0)"
  using assms(1-3) by (simp_all add: memcpy_at_def memset_at_def b1_def r_def nat_diff_distrib')

text \<open>
  The contract of a \<open>check_full_command\<close>: on buffers of the right shape that hold at most
  \<open>keep + once\<close> bytes it leaves at most \<open>keep\<close>, unless it stops at a fault. A read thread
  that reads at most \<open>once\<close> bytes a time then never writes outside its buffers.
\<close>

locale receive_buffer =
  fixes check :: "'a rx_scheme \<Rightarrow> 'a rx_scheme option"
    and keep once :: nat
  assumes room: "keep + once \<le> MAX_BUFFER_STRING + 16"
    and check_ok: "rx_ok c \<Longrightarrow> tty_buffer_pos c \<le> int (keep + once) \<Longrightarrow> check c = Some d \<Longrightarrow>
      rx_ok d \<and> tty_buffer_pos d \<le> int keep"
begin

lemma fill_ok:
  assumes "rx_ok c" "tty_buffer_pos c \<le> int keep" "length bs \<le> once"
  obtains d where "rx_fill bs c = Some d" "rx_ok d" "tty_buffer_pos d \<le> int (keep + once)"
    "rx_pending d = rx_pending c @ bs" "rx.more d = rx.more c"
proof -
  from assms room have "tty_buffer_pos c + int (length bs) \<le> int (MAX_BUFFER_STRING + 16)" by simp
  from rx_fill_ok [OF assms(1) this] obtain d where d: "rx_fill bs c = Some d" "rx_ok d"
    "tty_buffer_pos d = tty_buffer_pos c + int (length bs)" "rx_pending d = rx_pending c @ bs" "rx.more d = rx.more c" .
  then show ?thesis using that [of d] assms by simp
qed

lemma thread_keeps:
  assumes "rx_ok c" "tty_buffer_pos c \<le> int keep" "\<forall>e \<in> set es. fits_buf once e"
    "read_thread m check r es c = Some (b, d)"
  shows "rx_ok d \<and> tty_buffer_pos d \<le> int keep"
  using assms
proof (induction es arbitrary: r c)
  case (Cons e es)
  show ?case
  proof (cases e)
    case (Read_bytes bs)
    with Cons.prems have "length bs \<le> once" by simp
    from fill_ok [OF Cons.prems(1,2) this] obtain u where
      u: "rx_fill bs c = Some u" "rx_ok u" "tty_buffer_pos u \<le> int (keep + once)" .
    with Cons.prems Read_bytes obtain v where v: "check u = Some v" "read_thread m check r es v = Some (b, d)"
      by (auto split: bind_splits)
    from check_ok [OF u(2,3) v(1)] have "rx_ok v" "tty_buffer_pos v \<le> int keep" by auto
    then show ?thesis using Cons.IH [OF _ _ _ v(2)] Cons.prems(3) by simp
  qed (use Cons in \<open>auto split: if_splits\<close>)
qed simp

text \<open>
  The next read after any number of rounds: the copy into \<open>tty_buffer\<close> succeeds and appends the bytes, and
  whether the thread goes on is up to \<open>check_full_command\<close> alone.
\<close>

lemma thread_next:
  assumes "rx_ok c" "tty_buffer_pos c \<le> int keep" "\<forall>e \<in> set es. fits_buf once e" "length bs \<le> once"
    "read_thread m check r es c = Some (ended, d)"
  obtains u where "rx_ok d" "tty_buffer_pos d \<le> int keep" "rx_fill bs d = Some u" "rx_ok u" "tty_buffer_pos u \<le> int (keep + once)"
    "rx_pending u = rx_pending d @ bs" "rx.more u = rx.more d"
    "\<not> ended \<Longrightarrow> read_thread m check r (es @ [Read_bytes bs]) c = map_option (Pair False) (check u)"
proof -
  from thread_keeps [OF assms(1-3,5)] have d: "rx_ok d" "tty_buffer_pos d \<le> int keep" by simp_all
  from fill_ok [OF d assms(4)] obtain u where u: "rx_fill bs d = Some u" "rx_ok u" "tty_buffer_pos u \<le> int (keep + once)"
    "rx_pending u = rx_pending d @ bs" "rx.more u = rx.more d" .
  from d u show ?thesis
    by (rule that) (use assms(5) u(1) in \<open>simp add: read_thread_snoc map_option_case split: option.split\<close>)
qed

end

end
