(* ===== verification/Canbox.thy ===== *)
theory Canbox
  imports Serial
begin

text \<open>
  The CAN box driver, \<^verbatim>\<open>src/hardware/mx5x/libcanbox/canbox.cpp\<close>: frames
  \<open>2E type length data checksum\<close> arrive on a serial port in arbitrary pieces,
  \<open>check_full_command\<close> cuts them out of \<open>tty_buffer\<close>, \<open>verify_notification\<close> checks,
  queues and acknowledges them, and \<open>canbox_write\<close> sends a command and waits for the byte
  \<open>FF\<close> that acknowledges it.
\<close>

section \<open>Data\<close>

definition CANBOX_PROTOCAL_FRAME_START_BYTE :: u8 where "CANBOX_PROTOCAL_FRAME_START_BYTE = 0x2E"
definition CANBOX_PROTOCAL_FRAME_COMMAND_ACK :: u8 where "CANBOX_PROTOCAL_FRAME_COMMAND_ACK = 0xFF"

abbreviation CB_MAX_COMMAND_BYTE_LENGTH :: nat where "CB_MAX_COMMAND_BYTE_LENGTH \<equiv> 256"
abbreviation CB_MAX_READ_BYTE_ONCE :: nat where "CB_MAX_READ_BYTE_ONCE \<equiv> 64"

record canbox_notification =
  cn_data :: bytes
  cn_buffer_size :: int

text \<open>
  Two things the driver does are undefined in C but have no effect in the model, which goes on after
  them: it logs bytes as a string that need not end, and it copies bytes to the front of a buffer over
  themselves. Their occurrences are recorded.
\<close>

datatype lapse = Log_overread | Memcpy_overlap

record canbox_state = rx +
  cb_queue :: "canbox_notification nqueue"
  cb_sem_command :: u32
  cb_out :: tty_out
  cb_calls :: nat
  cb_lapses :: "lapse set"

text \<open>\<open>%s\<close> reads up to a zero byte; \<open>memcpy\<close> of \<open>n\<close> bytes from index \<open>h\<close> of an array to its start.\<close>

definition log_lapse :: "bytes \<Rightarrow> lapse set" where
  "log_lapse buffer = (if 0 \<in> set buffer then {} else {Log_overread})"

definition overlap_lapse :: "nat \<Rightarrow> nat \<Rightarrow> lapse set" where
  "overlap_lapse h n = (if h < n then {Memcpy_overlap} else {})"

text \<open>
  The environment: per call of \<open>verify_notification\<close> what the stack held where
  \<open>my_notification\<close> lies and the address \<open>malloc\<close> returns, and per attempt of
  \<open>canbox_write\<close> the answer of \<open>clock_gettime\<close> and the course of \<open>sem_timedwait\<close>.
  \<open>cb_calls\<close> counts the calls, \<open>cb_out\<close> lists the requests made to \<open>write\<close>,
  whose result the code ignores.
\<close>

record cw_attempt =
  cw_clock :: "errno + int \<times> int"
  cw_rounds :: "tw_round list"

record canbox_env =
  ce_stack :: "nat \<Rightarrow> nat \<Rightarrow> u8"
  ce_malloc :: "nat \<Rightarrow> nat"
  ce_write :: "nat \<Rightarrow> cw_attempt"

definition canbox_init :: canbox_state where
  "canbox_init = \<lparr>tty_buffer = replicate (MAX_BUFFER_STRING + 16) 0, tmp_buffer = replicate (MAX_BUFFER_STRING + 16) 0,
     tty_buffer_pos = 0, cb_queue = nq_init, cb_sem_command = SEMCOUNT_FROM_VALUE 0, cb_out = [], cb_calls = 0,
     cb_lapses = {}\<rparr>"

section \<open>Sending\<close>

text \<open>The loop that takes old acknowledgements off the semaphore.\<close>

function canbox_drain :: "nat \<Rightarrow> u32 \<Rightarrow> u32" where
  "canbox_drain retry w =
     (let (r, w') = trywait w in if r = 0 \<and> retry < 100 then canbox_drain (retry + 1) w' else w')"
  by auto
termination by (relation "measure (\<lambda>(retry, w). 100 - retry)") auto

declare canbox_drain.simps [simp del]

text \<open>
  The retry loop. It returns \<open>s\<close>, \<open>errno\<close> and \<open>retry\<close>; every path on which
  \<open>errno\<close> is read has set it after the \<open>write\<close>. A request with a negative size is refused
  by the kernel.
\<close>

function canbox_write_loop ::
  "(nat \<Rightarrow> cw_attempt) \<Rightarrow> bytes \<Rightarrow> int \<Rightarrow> int \<Rightarrow> errno option \<Rightarrow> nat \<Rightarrow> u32 \<Rightarrow> tty_out \<Rightarrow>
   (int \<times> errno option \<times> nat \<times> u32 \<times> tty_out) outcome" where
  "canbox_write_loop env buffer len s e retry w out =
     (let retry = retry + 1 in
      if len > int (length buffer) then Fault
      else
        let out = (if len < 0 then out else out @ [take (nat len) buffer]) in
        if len = 1 then Done (s, e, retry, w, out)
        else
          (case cw_clock (env retry) of
             Inl e' \<Rightarrow> Done (s, Some e', retry, w, out)
           | Inr (sec, nsec) \<Rightarrow>
               (case sem_timedwait (Some w) (Some (sec, nsec + 1000 * 1000 * 100)) (cw_rounds (env retry)) of
                  None \<Rightarrow> Blocked
                | Some (s, e'', w') \<Rightarrow>
                    let e = (if e'' = None then e else e'') in
                    if s = -1 \<and> e = Some ETIME \<and> retry < 3
                    then canbox_write_loop env buffer len s e retry (the w') out
                    else Done (s, e, retry, the w', out))))"
  by pat_completeness auto
termination by (relation "measure (\<lambda>(env, buffer, len, s, e, retry, w, out). 3 - retry)") auto

declare canbox_write_loop.simps [simp del]

definition canbox_write :: "(nat \<Rightarrow> cw_attempt) \<Rightarrow> bytes \<Rightarrow> int \<Rightarrow> canbox_state \<Rightarrow> (int \<times> canbox_state) outcome" where
  "canbox_write env buffer len c =
     (let c = c\<lparr>cb_lapses := cb_lapses c \<union> log_lapse buffer\<rparr>; w = canbox_drain 0 (cb_sem_command c) in
      case canbox_write_loop env buffer len 0 (Some EAGAIN) 0 w (cb_out c) of
        Blocked \<Rightarrow> Blocked
      | Fault \<Rightarrow> Fault
      | Done (s, e, retry, w, out) \<Rightarrow>
          Done (if s = -1 \<and> e = Some ETIME then -1 else 0, c\<lparr>cb_sem_command := w, cb_out := out\<rparr>))"

text \<open>The command structure holds 64 bytes and the size its caller claims.\<close>

definition canbox_send_command :: "(nat \<Rightarrow> cw_attempt) \<Rightarrow> canbox_notification \<Rightarrow> canbox_state \<Rightarrow> (int \<times> canbox_state) outcome" where
  "canbox_send_command env p_notification c =
     (case canbox_write env (cn_data p_notification) (cn_buffer_size p_notification) c of
        Blocked \<Rightarrow> Blocked | Fault \<Rightarrow> Fault | Done (_, c) \<Rightarrow> Done (0, c))"

section \<open>Receiving\<close>

definition canbox_get_notification :: "u32 list \<Rightarrow> canbox_state \<Rightarrow> (int \<times> canbox_notification \<times> canbox_state) outcome" where
  "canbox_get_notification wakes c =
     (case pop_notification wakes (cb_queue c) of
        Blocked \<Rightarrow> Blocked | Fault \<Rightarrow> Fault | Done (_, n, q) \<Rightarrow> Done (0, n, c\<lparr>cb_queue := q\<rparr>))"

text \<open>The checksum of \<open>len\<close> bytes from index \<open>s\<close>: their sum, complemented.\<close>

fun canbox_sum :: "bytes \<Rightarrow> nat \<Rightarrow> nat \<Rightarrow> u8 \<Rightarrow> u8 option" where
  "canbox_sum data i 0 checksum = Some checksum"
| "canbox_sum data i (Suc n) checksum =
     do { b \<leftarrow> rd data i; canbox_sum data (Suc i) n (checksum + b) }"

definition canbox_calc_checksum :: "bytes \<Rightarrow> nat \<Rightarrow> int \<Rightarrow> u8 option" where
  "canbox_calc_checksum data s len =
     do { checksum \<leftarrow> canbox_sum data s (nat len) 0; Some (checksum XOR 0xFF) }"

text \<open>\<open>canbox_write(&ack, 1)\<close>; a write of one byte never blocks (lemma \<open>canbox_write_ack\<close>).\<close>

definition canbox_ack :: "canbox_env \<Rightarrow> u8 \<Rightarrow> canbox_state \<Rightarrow> canbox_state option" where
  "canbox_ack env ack c =
     (case canbox_write (ce_write env) [ack] 1 c of Done (_, c) \<Rightarrow> Some c | _ \<Rightarrow> None)"

definition verify_notification :: "canbox_env \<Rightarrow> bytes \<Rightarrow> int \<Rightarrow> canbox_state \<Rightarrow> canbox_state option" where
  "verify_notification env command nSize c =
     (let k = cb_calls c; c = c\<lparr>cb_calls := k + 1\<rparr>; datalen = nSize - 2 in
      do {
        lenb \<leftarrow> rd command 2;
        if datalen \<noteq> uint lenb + 2 then Some c
        else do {
          checksum \<leftarrow> canbox_calc_checksum command 1 datalen;
          given \<leftarrow> rd command (nat (nSize - 1));
          if checksum \<noteq> given then canbox_ack env 0xF0 c
          else do {
            data \<leftarrow> memcpy_at (map (ce_stack env k) [0..<64]) 0 command 0 nSize;
            (ret, q) \<leftarrow> push_notification (ce_malloc env k) \<lparr>cn_data = data, cn_buffer_size = nSize\<rparr> (cb_queue c);
            canbox_ack env (if ret \<noteq> 0 then 0xFC else 0xFF) (c\<lparr>cb_queue := q\<rparr>)
          }
        }
      })"

text \<open>
  The part of the loop of \<open>check_full_command\<close> that handles a frame: it copies the frame out,
  has it verified, and moves the bytes after it to the start of the buffer. \<open>h\<close> is the index of
  \<open>p_head\<close>.
\<close>

definition canbox_take :: "canbox_env \<Rightarrow> nat \<Rightarrow> int \<Rightarrow> int \<Rightarrow> canbox_state \<Rightarrow> (canbox_state, canbox_state) turn option" where
  "canbox_take env h len left_bytes c =
     do {
       command \<leftarrow> memset_at (replicate CB_MAX_COMMAND_BYTE_LENGTH 0) 0 0 (int CB_MAX_COMMAND_BYTE_LENGTH);
       command \<leftarrow> memcpy_at command 0 (tty_buffer c) h (len + 4);
       c \<leftarrow> verify_notification env command (len + 4) c;
       b \<leftarrow> memset_at (tty_buffer c) 0 0 (int h + 2 + 1 + len + 1);
       let rest = (if left_bytes > len then left_bytes - len - 1 else 0);
       t \<leftarrow> memcpy_at (tmp_buffer c) 0 b (h + 2 + nat len + 1 + 1) rest;
       b \<leftarrow> memcpy_at b 0 t 0 rest;
       t \<leftarrow> memset_at t 0 0 (512 + 16);
       let c = c\<lparr>tmp_buffer := t, tty_buffer_pos := rest\<rparr>;
       if rest \<le> 0 then do {
         b \<leftarrow> memset_at b 0 0 (int MAX_BUFFER_STRING + 16);
         Some (Return (c\<lparr>tty_buffer := b\<rparr>)) }
       else do {
         b \<leftarrow> memset_at b (nat rest) 0 (int MAX_BUFFER_STRING + 16 - rest);
         Some (Continue (c\<lparr>tty_buffer := b\<rparr>)) }
     }"

text \<open>The rest of a turn once \<open>p_head\<close> is found, at index \<open>h\<close>: a piece of a frame is moved to the start of the buffer.\<close>

definition canbox_at_head :: "canbox_env \<Rightarrow> nat \<Rightarrow> canbox_state \<Rightarrow> (canbox_state, canbox_state) turn option" where
  "canbox_at_head env h c =
     (if int h + 1 = tty_buffer_pos c then do {
        b \<leftarrow> memcpy_at (tty_buffer c) 0 (tty_buffer c) h 1;
        Some (Return (c\<lparr>tty_buffer := b, tty_buffer_pos := 1, cb_lapses := cb_lapses c \<union> overlap_lapse h 1\<rparr>)) }
      else if int h + 2 = tty_buffer_pos c then do {
        b \<leftarrow> memcpy_at (tty_buffer c) 0 (tty_buffer c) h 2;
        Some (Return (c\<lparr>tty_buffer := b, tty_buffer_pos := 2, cb_lapses := cb_lapses c \<union> overlap_lapse h 2\<rparr>)) }
      else if int h + 3 = tty_buffer_pos c then do {
        b \<leftarrow> memcpy_at (tty_buffer c) 0 (tty_buffer c) h 3;
        Some (Return (c\<lparr>tty_buffer := b, tty_buffer_pos := 3, cb_lapses := cb_lapses c \<union> overlap_lapse h 3\<rparr>)) }
      else do {
        lenb \<leftarrow> rd (tty_buffer c) (h + 2);
        let len = uint lenb;
        if len > int CB_MAX_COMMAND_BYTE_LENGTH then Some (Return c)
        else
          let left_bytes = tty_buffer_pos c - (int h + 2 + 1) in
          if len > left_bytes then do {
            t \<leftarrow> memcpy_at (tmp_buffer c) 0 (tty_buffer c) h (left_bytes + 3);
            b \<leftarrow> memcpy_at (tty_buffer c) 0 t 0 (left_bytes + 3);
            t \<leftarrow> memset_at t 0 0 (512 + 16);
            Some (Return (c\<lparr>tty_buffer := b, tmp_buffer := t, tty_buffer_pos := left_bytes + 3\<rparr>)) }
          else canbox_take env h len left_bytes c })"

text \<open>
  One turn of the loop of \<open>check_full_command\<close>. \<open>p_start\<close> is the start of
  \<open>tty_buffer\<close> throughout, and \<open>search_byte\<close> keeps the value it had at entry.
\<close>

definition canbox_turn :: "canbox_env \<Rightarrow> int \<Rightarrow> canbox_state \<Rightarrow> (canbox_state, canbox_state) turn option" where
  "canbox_turn env search_byte c =
     do {
       p_ack \<leftarrow> memchr_at (tty_buffer c) 0 CANBOX_PROTOCAL_FRAME_COMMAND_ACK search_byte;
       let c = (if p_ack \<noteq> None then c\<lparr>cb_sem_command := post (cb_sem_command c)\<rparr> else c);
       p_head \<leftarrow> memchr_at (tty_buffer c) 0 CANBOX_PROTOCAL_FRAME_START_BYTE search_byte;
       (case p_head of
          None \<Rightarrow> Some (Return (c\<lparr>tty_buffer_pos := 0\<rparr>))
        | Some h \<Rightarrow> canbox_at_head env h c)
     }"

lemma canbox_take_continue:
  assumes "canbox_take env h len left_bytes c = Some (Continue d)"
  shows "tty_buffer_pos d = left_bytes - len - 1 \<and> 0 < tty_buffer_pos d"
  using assms by (auto simp: canbox_take_def Let_def bind_eq_Some_conv split: if_splits)

lemma canbox_at_head_continue:
  assumes "canbox_at_head env h c = Some (Continue d)"
  shows "nat (tty_buffer_pos d) < nat (tty_buffer_pos c)"
proof -
  from assms obtain l :: u8 where "canbox_take env h (uint l) (tty_buffer_pos c - (3 + int h)) c = Some (Continue d)"
    by (auto simp: canbox_at_head_def Let_def bind_eq_Some_conv split: if_splits)
  from canbox_take_continue [OF this] uint_ge_0 [of l] show ?thesis by linarith
qed

lemma canbox_turn_continue:
  assumes "canbox_turn env search_byte c = Some (Continue d)"
  shows "nat (tty_buffer_pos d) < nat (tty_buffer_pos c)"
proof -
  from assms obtain p h where "canbox_at_head env h (if p then c\<lparr>cb_sem_command := post (cb_sem_command c)\<rparr> else c) = Some (Continue d)"
    by (auto simp: canbox_turn_def Let_def bind_eq_Some_conv split: option.split_asm)
  from canbox_at_head_continue [OF this] show ?thesis by (simp split: if_splits)
qed

function canbox_loop :: "canbox_env \<Rightarrow> int \<Rightarrow> canbox_state \<Rightarrow> canbox_state option" where
  "canbox_loop env search_byte c =
     (case canbox_turn env search_byte c of
        None \<Rightarrow> None
      | Some (Return d) \<Rightarrow> Some d
      | Some (Continue d) \<Rightarrow> canbox_loop env search_byte d)"
  by auto
termination
  by (relation "measure (\<lambda>(env, search_byte, c). nat (tty_buffer_pos c))") (auto dest: canbox_turn_continue)

declare canbox_loop.simps [simp del]

definition canbox_check_full_command :: "canbox_env \<Rightarrow> canbox_state \<Rightarrow> canbox_state option" where
  "canbox_check_full_command env c =
     (if tty_buffer_pos c = 0 then Some c else canbox_loop env (tty_buffer_pos c) c)"

definition canbox_read_thread_func :: "canbox_env \<Rightarrow> read_event list \<Rightarrow> canbox_state \<Rightarrow> (bool \<times> canbox_state) option" where
  "canbox_read_thread_func env = read_thread 300 (canbox_check_full_command env) 0"

section \<open>What the receiver promises\<close>

text \<open>
  The same on bytes instead of buffers: the bytes not yet used and the effects. A frame is
  \<open>2E type length data checksum\<close>, with the checksum the complement of the sum of the bytes
  between.
\<close>

definition canbox_valid :: "bytes \<Rightarrow> bool" where
  "canbox_valid f = (last f = NOT (sum_list (tl (butlast f))))"

datatype canbox_piece = Wait bytes | Frame bytes bytes

text \<open>
  \<open>stale\<close> is the byte of the buffer behind the received ones: a frame of which only the
  checksum is missing is cut with that byte in its place.
\<close>

definition canbox_cut :: "u8 \<Rightarrow> bytes \<Rightarrow> canbox_piece" where
  "canbox_cut stale v =
     (let r = dropWhile (\<lambda>x. x \<noteq> CANBOX_PROTOCAL_FRAME_START_BYTE) v in
      if length r \<le> 3 then Wait r
      else
        let n = unat (r ! 2) in
        if n > length r - 3 then Wait r
        else Frame (take (n + 4) (r @ [stale])) (drop (n + 4) r))"

record canbox_port =
  cp_pending :: bytes
  cp_queue :: "canbox_notification nqueue"
  cp_sem_command :: u32
  cp_out :: tty_out
  cp_calls :: nat
  cp_lapses :: "lapse set"

definition canbox_abs :: "canbox_state \<Rightarrow> canbox_port" where
  "canbox_abs c = \<lparr>cp_pending = rx_pending c, cp_queue = cb_queue c, cp_sem_command = cb_sem_command c,
     cp_out = cb_out c, cp_calls = cb_calls c, cp_lapses = cb_lapses c\<rparr>"

definition cp_ack :: "u8 \<Rightarrow> canbox_port \<Rightarrow> canbox_port" where
  "cp_ack ack a = a\<lparr>cp_sem_command := canbox_drain 0 (cp_sem_command a), cp_out := cp_out a @ [[ack]],
     cp_lapses := cp_lapses a \<union> log_lapse [ack]\<rparr>"

text \<open>The notification for a frame: its bytes, then what the stack held.\<close>

definition canbox_note :: "canbox_env \<Rightarrow> nat \<Rightarrow> bytes \<Rightarrow> canbox_notification" where
  "canbox_note env k f = \<lparr>cn_data = f @ drop (length f) (map (ce_stack env k) [0..<64]), cn_buffer_size = int (length f)\<rparr>"

definition cp_accept :: "canbox_env \<Rightarrow> bytes \<Rightarrow> canbox_port \<Rightarrow> canbox_port option" where
  "cp_accept env f a =
     (let k = cp_calls a; a = a\<lparr>cp_calls := k + 1\<rparr> in
      if length f > 256 then None
      else if \<not> canbox_valid f then Some (cp_ack 0xF0 a)
      else if length f > 64 \<or> ce_malloc env k = 0 then None
      else Some (cp_ack 0xFF (a\<lparr>cp_queue := (cp_queue a)\<lparr>nq_head := nq_head (cp_queue a) @ [canbox_note env k f],
        nq_sem := post (nq_sem (cp_queue a))\<rparr>\<rparr>)))"

text \<open>At most three bytes from a start byte on are moved to the front at once, over themselves if they lie there.\<close>

definition tail_lapse :: "bytes \<Rightarrow> lapse set" where
  "tail_lapse v =
     (let r = dropWhile (\<lambda>x. x \<noteq> CANBOX_PROTOCAL_FRAME_START_BYTE) v in
      if length r \<le> 3 then overlap_lapse (length v - length r) (length r) else {})"

lemma canbox_cut_shorter:
  assumes "canbox_cut stale v = Frame f r"
  shows "length r + 4 \<le> length v \<or> r = []"
proof -
  have "length (dropWhile (\<lambda>x. x \<noteq> CANBOX_PROTOCAL_FRAME_START_BYTE) v) \<le> length v"
    by (rule length_dropWhile_le)
  with assms show ?thesis by (auto simp: canbox_cut_def Let_def split: if_splits)
qed

function cp_check :: "canbox_env \<Rightarrow> u8 \<Rightarrow> canbox_port \<Rightarrow> canbox_port option" where
  "cp_check env stale a =
     (let v = cp_pending a;
          a = (if CANBOX_PROTOCAL_FRAME_COMMAND_ACK \<in> set v then a\<lparr>cp_sem_command := post (cp_sem_command a)\<rparr> else a)
      in case canbox_cut stale v of
           Wait r \<Rightarrow> Some (a\<lparr>cp_pending := r, cp_lapses := cp_lapses a \<union> tail_lapse v\<rparr>)
         | Frame f r \<Rightarrow>
             (case cp_accept env f a of
                None \<Rightarrow> None
              | Some a \<Rightarrow> if r = [] then Some (a\<lparr>cp_pending := r\<rparr>) else cp_check env 0 (a\<lparr>cp_pending := r\<rparr>)))"
  by auto
termination
  by (relation "measure (\<lambda>(env, stale, a). length (cp_pending a))") (auto dest: canbox_cut_shorter)

declare cp_check.simps [simp del]

section \<open>The code keeps the promise\<close>

lemma canbox_sum_eq: "i + n \<le> length a \<Longrightarrow> canbox_sum a i n s = Some (s + sum_list (take n (drop i a)))"
  by (induction n arbitrary: i s) (simp_all add: rd_def take_Suc_drop add.assoc)

lemma xor_all_ones: "(x::u8) XOR 0xFF = NOT x"
proof -
  have "(0xFF::u8) = - 1" by simp
  then show ?thesis by (metis bit.xor_one_right)
qed

lemma canbox_calc_checksum_eq:
  "s + nat n \<le> length a \<Longrightarrow> canbox_calc_checksum a s n = Some (NOT (sum_list (take (nat n) (drop s a))))"
  by (simp add: canbox_calc_checksum_def canbox_sum_eq xor_all_ones)

lemma canbox_write_ack:
  "canbox_write env [ack] 1 c =
     Done (0, c\<lparr>cb_sem_command := canbox_drain 0 (cb_sem_command c), cb_out := cb_out c @ [[ack]],
       cb_lapses := cb_lapses c \<union> log_lapse [ack]\<rparr>)"
  by (simp add: canbox_write_def canbox_write_loop.simps Let_def)

lemma canbox_ack_abs:
  "\<exists>d. canbox_ack env ack c = Some d \<and> canbox_abs d = cp_ack ack (canbox_abs c) \<and>
     tty_buffer d = tty_buffer c \<and> tmp_buffer d = tmp_buffer c \<and> tty_buffer_pos d = tty_buffer_pos c"
  by (simp add: canbox_ack_def canbox_write_ack canbox_abs_def cp_ack_def rx_pending_def)

text \<open>A frame of \<open>n\<close> data bytes is verified as the receiver promises.\<close>

lemma verify_notification_abs:
  assumes f: "length f = unat (f ! 2) + 4" "length f \<le> 256"
  shows "rel_option (\<lambda>d a. canbox_abs d = a \<and> tty_buffer d = tty_buffer c \<and> tmp_buffer d = tmp_buffer c \<and>
      tty_buffer_pos d = tty_buffer_pos c)
    (verify_notification env (f @ replicate (256 - length f) 0) (int (length f)) c)
    (cp_accept env f (canbox_abs c))"
proof -
  let ?cmd = "f @ replicate (256 - length f) 0"
  let ?c = "c\<lparr>cb_calls := Suc (cb_calls c)\<rparr>"
  obtain n where n: "length f = n + 4" "uint (f ! 2) = int n" using f by simp
  then have i: "nat (int (length f) - 2) = n + 2" "nat (int (length f) - 1) = n + 3" by simp_all
  have ne: "f \<noteq> []" using n by auto
  have "tl (butlast f) = take (n + 2) (drop 1 f)"
    using n by (simp add: butlast_conv_take drop_Suc tl_take)
  then have sum: "canbox_calc_checksum ?cmd 1 (int (length f) - 2) = Some (NOT (sum_list (tl (butlast f))))"
    using n i by (subst canbox_calc_checksum_eq) (simp_all del: One_nat_def)
  have given: "rd ?cmd (nat (int (length f) - 1)) = Some (last f)"
    unfolding i using n last_conv_nth [OF ne] by (simp add: rd_def nth_append add.commute)
  have copy: "memcpy_at (map (ce_stack env (cb_calls c)) [0..<64]) 0 ?cmd 0 (int (length f)) =
      (if length f > 64 then None else Some (f @ drop (length f) (map (ce_stack env (cb_calls c)) [0..<64])))"
    by (simp add: memcpy_at_def)
  have abs: "canbox_abs ?c = (canbox_abs c)\<lparr>cp_calls := Suc (cb_calls c)\<rparr>"
    by (simp add: canbox_abs_def rx_pending_def)
  have unfold: "verify_notification env ?cmd (int (length f)) c =
      (if \<not> canbox_valid f then canbox_ack env 0xF0 ?c
       else if length f > 64 \<or> ce_malloc env (cb_calls c) = 0 then None
       else canbox_ack env 0xFF (?c\<lparr>cb_queue := (cb_queue c)\<lparr>nq_head := nq_head (cb_queue c) @ [canbox_note env (cb_calls c) f],
        nq_sem := post (nq_sem (cb_queue c))\<rparr>\<rparr>))"
    using sum given copy n
    by (simp add: verify_notification_def canbox_valid_def rd_def nth_append push_notification_def canbox_note_def Let_def
        del: drop_map)
  show ?thesis
    unfolding unfold using f(2)
      canbox_ack_abs [of env "0xF0" ?c]
      canbox_ack_abs [of env "0xFF" "?c\<lparr>cb_queue := (cb_queue c)\<lparr>nq_head := nq_head (cb_queue c) @ [canbox_note env (cb_calls c) f],
        nq_sem := post (nq_sem (cb_queue c))\<rparr>\<rparr>"]
    by (auto simp: cp_accept_def Let_def canbox_abs_def rx_pending_def)
qed

lemma canbox_take_abs:
  assumes ok: "rx_ok c" and p: "tty_buffer_pos c = int p" "p < 528"
    and n: "unat (tty_buffer c ! (h + 2)) = n" "h + 3 + n \<le> p"
    and f: "f = take (n + 4) (drop h (tty_buffer c))" and r: "r = drop (h + n + 4) (take p (tty_buffer c))"
  shows "case cp_accept env f (canbox_abs c) of
      None \<Rightarrow> canbox_take env h (int n) (int p - int h - 3) c = None
    | Some a \<Rightarrow> \<exists>d. canbox_take env h (int n) (int p - int h - 3) c = Some (if r = [] then Return d else Continue d) \<and>
        rx_ok d \<and> rx_clear d \<and> canbox_abs d = a\<lparr>cp_pending := r\<rparr>"
proof -
  have clean: "memset_at (replicate CB_MAX_COMMAND_BYTE_LENGTH 0) 0 0 (int CB_MAX_COMMAND_BYTE_LENGTH) = Some (replicate 256 0)"
    by (simp add: memset_at_def)
  show ?thesis
proof (cases "n + 4 \<le> 256")
  case False
  then have "memcpy_at (replicate 256 0) 0 (tty_buffer c) h (int n + 4) = None"
    by (simp add: memcpy_at_def nat_add_distrib)
  moreover have "cp_accept env f (canbox_abs c) = None"
    using False rx_okD(1) [OF ok] p n by (simp add: cp_accept_def Let_def f)
  ultimately show ?thesis unfolding canbox_take_def clean bind.bind_lunit by simp
next
  case True
  note len = rx_okD(1,2) [OF ok]
  have lf: "length f = n + 4" using len p n by (simp add: f)
  have f2: "f ! 2 = tty_buffer c ! (h + 2)" using len p n by (simp add: f)
  let ?cmd = "f @ replicate (256 - length f) 0"
  have cmd: "memcpy_at (replicate 256 0) 0 (tty_buffer c) h (int n + 4) = Some ?cmd"
    using True len p n by (simp add: memcpy_at_def f nat_add_distrib)
  have ver: "rel_option (\<lambda>d a. canbox_abs d = a \<and> tty_buffer d = tty_buffer c \<and> tmp_buffer d = tmp_buffer c \<and>
      tty_buffer_pos d = tty_buffer_pos c)
    (verify_notification env ?cmd (int n + 4) c) (cp_accept env f (canbox_abs c))"
  proof -
    have "length f = unat (f ! 2) + 4" "length f \<le> 256" "int (length f) = int n + 4" using lf f2 n True by simp_all
    then show ?thesis using verify_notification_abs [of f c env] by metis
  qed
  show ?thesis
  proof (cases "cp_accept env f (canbox_abs c)")
    case None
    with ver have "verify_notification env ?cmd (int n + 4) c = None" by (simp add: rel_option_iff split: option.splits)
    with None cmd show ?thesis unfolding canbox_take_def clean bind.bind_lunit by simp
  next
    case (Some a)
    with ver obtain c1 where v: "verify_notification env ?cmd (int n + 4) c = Some c1" "canbox_abs c1 = a"
      and same: "tty_buffer c1 = tty_buffer c" "tmp_buffer c1 = tmp_buffer c" "tty_buffer_pos c1 = tty_buffer_pos c"
      by (auto simp: rel_option_iff split: option.splits)
    define b1 where "b1 = replicate (h + n + 4) 0 @ drop (h + n + 4) (tty_buffer c)"
    define t1 where "t1 = r @ drop (length r) (tmp_buffer c)"
    define b2 where "b2 = r @ drop (length r) b1"
    have lr: "length r = p - (h + n + 4)" "take (length r) (drop (h + n + 4) (tty_buffer c)) = r"
      using len p by (simp_all add: r drop_take)
    have room: "h + n + 4 + length r \<le> 528" "length r \<le> 528" using lr(1) p n by linarith+
    have rest: "(if int p - int h - 3 > int n then int p - int h - 3 - int n - 1 else 0) = int (length r)"
      using lr(1) by auto
    have s1: "memset_at (tty_buffer c1) 0 0 (int h + 2 + 1 + int n + 1) = Some b1"
      using len same p n by (simp add: memset_at_def b1_def nat_add_distrib add_ac)
    have s2: "memcpy_at (tmp_buffer c1) 0 b1 (h + 2 + n + 1 + 1) (int (length r)) = Some t1"
      using len same lr(2) room by (simp add: memcpy_at_def b1_def t1_def add_ac)
    have s3: "memcpy_at b1 0 t1 0 (int (length r)) = Some b2"
      using len room by (simp add: memcpy_at_def b1_def b2_def t1_def)
    have s4: "memset_at t1 0 0 (512 + 16) = Some (replicate 528 0)"
      using len room by (simp add: memset_at_def t1_def)
    have s5: "memset_at b2 (length r) 0 (int MAX_BUFFER_STRING + 16 - int (length r)) = Some (r @ replicate (528 - length r) 0)"
      using len room by (simp add: memset_at_def b1_def b2_def nat_diff_distrib')
    have s6: "memset_at b2 0 0 (int MAX_BUFFER_STRING + 16) = Some (replicate 528 0)"
      using len room by (simp add: memset_at_def b1_def b2_def)
    define d where "d = c1\<lparr>tmp_buffer := replicate 528 0, tty_buffer_pos := int (length r), tty_buffer := r @ replicate (528 - length r) 0\<rparr>"
    have "canbox_take env h (int n) (int p - int h - 3) c = Some (if r = [] then Return d else Continue d)"
      unfolding canbox_take_def clean bind.bind_lunit cmd v(1) s1 Let_def rest nat_int s2 s3 s4 s5 s6
      by (auto simp: d_def)
    moreover have "rx_ok d" using room by (simp add: rx_ok_def d_def)
    moreover have "rx_clear d" by (auto simp: rx_clear_def d_def nth_append)
    moreover have "canbox_abs d = a\<lparr>cp_pending := r\<rparr>"
      using v(2) by (auto simp: canbox_abs_def d_def rx_pending_def)
    ultimately show ?thesis using Some by auto
  qed
qed
qed

text \<open>Cutting, for a buffer that holds a start byte at index \<open>h\<close>.\<close>

lemma canbox_at_head_abs:
  assumes ok: "rx_ok c" and p: "tty_buffer_pos c = int p" "p < 528"
    and h: "dropWhile (\<lambda>x. x \<noteq> CANBOX_PROTOCAL_FRAME_START_BYTE) (rx_pending c) = drop h (rx_pending c)" "h < p"
  shows "case canbox_cut (tty_buffer c ! p) (rx_pending c) of
      Wait r \<Rightarrow> \<exists>d. canbox_at_head env h c = Some (Return d) \<and> rx_ok d \<and> canbox_abs d =
        (canbox_abs c)\<lparr>cp_pending := r, cp_lapses := cb_lapses c \<union> tail_lapse (rx_pending c)\<rparr>
    | Frame f r \<Rightarrow>
        (case cp_accept env f (canbox_abs c) of
           None \<Rightarrow> canbox_at_head env h c = None
         | Some a \<Rightarrow> \<exists>d. canbox_at_head env h c = Some (if r = [] then Return d else Continue d) \<and>
             rx_ok d \<and> rx_clear d \<and> canbox_abs d = a\<lparr>cp_pending := r\<rparr>)"
proof -
  note len = rx_okD(1,2) [OF ok]
  have pend: "rx_pending c = take p (tty_buffer c)" using p by (simp add: rx_pending_def)
  let ?r = "drop h (take p (tty_buffer c))"
  have lr: "length ?r = p - h" using len p h by simp
  have r2: "?r ! 2 = tty_buffer c ! (h + 2)" if "h + 2 < p" using that len p by simp
  have frame: "take (n + 4) (?r @ [tty_buffer c ! p]) = take (n + 4) (drop h (tty_buffer c))" if "h + n + 3 \<le> p" for n
  proof -
    have "take p (tty_buffer c) @ [tty_buffer c ! p] = take (Suc p) (tty_buffer c)"
      using len p by (simp add: take_Suc_conv_app_nth)
    then have "?r @ [tty_buffer c ! p] = drop h (take (Suc p) (tty_buffer c))"
      using h len p by (metis drop_append drop0 length_take lr diff_is_0_eq' less_imp_le min.absorb2 min_def)
    then show ?thesis using that by (simp add: drop_take min_def)
  qed
  have kept: "rx_ok (c\<lparr>tty_buffer := b, tmp_buffer := t, tty_buffer_pos := int (p - h), cb_lapses := l\<rparr>) \<and>
      canbox_abs (c\<lparr>tty_buffer := b, tmp_buffer := t, tty_buffer_pos := int (p - h), cb_lapses := l\<rparr>) =
        (canbox_abs c)\<lparr>cp_pending := ?r, cp_lapses := l\<rparr>"
    if "length b = 528" "length t = 528" "take (p - h) b = ?r" for b t l
    using that p by (simp add: rx_ok_def canbox_abs_def rx_pending_def)
  have tail: "tail_lapse (rx_pending c) = (if p - h \<le> 3 then overlap_lapse h (p - h) else {})"
    using h len p lr by (simp add: tail_lapse_def pend Let_def min_def)
  consider (few) "p - h \<le> 3" | (wait) "p - h > 3" "unat (?r ! 2) > p - h - 3" | (whole) "p - h > 3" "unat (?r ! 2) \<le> p - h - 3"
    by linarith
  then show ?thesis
  proof cases
    case few
    obtain b where b: "memcpy_at (tty_buffer c) 0 (tty_buffer c) h (int (p - h)) = Some b" "length b = 528" "take (p - h) b = ?r"
      using memcpy_to_front [of "tty_buffer c" h "p - h"] len p h by (auto simp: drop_take)
    have "canbox_at_head env h c =
        Some (Return (c\<lparr>tty_buffer := b, tty_buffer_pos := int (p - h), cb_lapses := cb_lapses c \<union> overlap_lapse h (p - h)\<rparr>))"
    proof -
      consider "p = h + 1" | "p = h + 2" | "p = h + 3" using few h by linarith
      then show ?thesis by cases (use b p in \<open>simp_all add: canbox_at_head_def\<close>)
    qed
    moreover have "canbox_cut (tty_buffer c ! p) (rx_pending c) = Wait ?r"
      using few h lr by (simp add: canbox_cut_def pend)
    ultimately show ?thesis using kept [OF b(2) len(2) b(3)] few tail by simp
  next
    case wait
    then have i: "int h + 1 \<noteq> int p" "int h + 2 \<noteq> int p" "int h + 3 \<noteq> int p" "h + 2 < p" "int p - (int h + 2 + 1) + 3 = int (p - h)"
      using h by linarith+
    define t where "t = ?r @ drop (p - h) (tmp_buffer c)"
    define b where "b = ?r @ drop (p - h) (tty_buffer c)"
    have t: "memcpy_at (tmp_buffer c) 0 (tty_buffer c) h (int (p - h)) = Some t"
      using len p h by (simp add: memcpy_at_def t_def drop_take del: of_nat_diff)
    have b: "memcpy_at (tty_buffer c) 0 t 0 (int (p - h)) = Some b"
      using len p h lr by (simp add: memcpy_at_def t_def b_def del: of_nat_diff)
    have z: "memset_at t 0 0 (512 + 16) = Some (replicate 528 0)" using len p h by (simp add: memset_at_def t_def)
    have l: "rd (tty_buffer c) (h + 2) = Some (?r ! 2)" using i len p by (simp add: rd_def)
    have big: "\<not> uint (?r ! 2) > int CB_MAX_COMMAND_BYTE_LENGTH" using byte_range [of "?r ! 2"] by simp
    have more: "uint (?r ! 2) > int p - (int h + 2 + 1)" 
    proof -
      have "uint (?r ! 2) = int (unat (?r ! 2))" by simp
      with wait h show ?thesis by linarith
    qed
    have "canbox_at_head env h c = Some (Return (c\<lparr>tty_buffer := b, tmp_buffer := replicate 528 0, tty_buffer_pos := int (p - h)\<rparr>))"
      unfolding canbox_at_head_def p(1) Let_def l bind.bind_lunit using i(1-3) big more
      by (simp only: if_False if_True i(5) t b z bind.bind_lunit)
    moreover have "canbox_cut (tty_buffer c ! p) (rx_pending c) = Wait ?r"
      using wait h lr by (simp add: canbox_cut_def pend Let_def)
    ultimately show ?thesis using kept [of b "replicate 528 0" "cb_lapses c"] len p lr wait(1) tail by (simp add: b_def)
  next
    case whole
    then have i: "int h + 1 \<noteq> int p" "int h + 2 \<noteq> int p" "int h + 3 \<noteq> int p" "h + 2 < p" "int p - (int h + 2 + 1) = int p - int h - 3"
      using h by linarith+
    obtain n where n: "n = unat (?r ! 2)" by simp
    then have u: "uint (?r ! 2) = int n" "unat (tty_buffer c ! (h + 2)) = n" "h + 3 + n \<le> p" using r2 i whole by simp_all
    have l: "rd (tty_buffer c) (h + 2) = Some (?r ! 2)" using i len p by (simp add: rd_def)
    have big: "\<not> uint (?r ! 2) > int CB_MAX_COMMAND_BYTE_LENGTH" using byte_range [of "?r ! 2"] by simp
    have le: "\<not> uint (?r ! 2) > int p - int h - 3" using u by linarith
    have "canbox_at_head env h c = canbox_take env h (int n) (int p - int h - 3) c"
      unfolding canbox_at_head_def p(1) Let_def l bind.bind_lunit i(5) using i(1-3) big le
      by (simp only: if_False if_True u(1))
    moreover have "canbox_cut (tty_buffer c ! p) (rx_pending c) =
        Frame (take (n + 4) (drop h (tty_buffer c))) (drop (h + n + 4) (take p (tty_buffer c)))"
      using whole h lr frame [of n] u n by (simp add: canbox_cut_def pend Let_def add_ac)
    ultimately show ?thesis using canbox_take_abs [OF ok p u(2,3) refl refl, of env] by (simp only: canbox_piece.case)
  qed
qed

text \<open>A turn of the loop; behind the received bytes the search finds nothing.\<close>

lemma canbox_turn_abs:
  assumes ok: "rx_ok c" and p: "tty_buffer_pos c = int p" "0 < p" "p < 528"
    and s: "p \<le> nat s" "0 \<le> s" "s \<le> 528" "\<And>i. p \<le> i \<Longrightarrow> i < nat s \<Longrightarrow> tty_buffer c ! i = 0"
  defines "a0 \<equiv> (if CANBOX_PROTOCAL_FRAME_COMMAND_ACK \<in> set (rx_pending c)
      then (canbox_abs c)\<lparr>cp_sem_command := post (cp_sem_command (canbox_abs c))\<rparr> else canbox_abs c)"
  shows "case canbox_cut (tty_buffer c ! p) (rx_pending c) of
      Wait r \<Rightarrow> \<exists>d. canbox_turn env s c = Some (Return d) \<and> rx_ok d \<and> canbox_abs d =
        a0\<lparr>cp_pending := r, cp_lapses := cp_lapses a0 \<union> tail_lapse (rx_pending c)\<rparr>
    | Frame f r \<Rightarrow>
        (case cp_accept env f a0 of
           None \<Rightarrow> canbox_turn env s c = None
         | Some a \<Rightarrow> \<exists>d. canbox_turn env s c = Some (if r = [] then Return d else Continue d) \<and>
             rx_ok d \<and> rx_clear d \<and> canbox_abs d = a\<lparr>cp_pending := r\<rparr>)"
proof -
  let ?v = "rx_pending c"
  let ?ack = "CANBOX_PROTOCAL_FRAME_COMMAND_ACK" and ?head = "CANBOX_PROTOCAL_FRAME_START_BYTE"
  define c0 where "c0 = (if ?ack \<in> set ?v then c\<lparr>cb_sem_command := post (cb_sem_command c)\<rparr> else c)"
  have c0: "rx_ok c0" "tty_buffer c0 = tty_buffer c" "tty_buffer_pos c0 = int p" "rx_pending c0 = ?v" "canbox_abs c0 = a0" "cb_lapses c0 = cp_lapses a0"
    using ok p by (auto simp: c0_def a0_def rx_ok_def rx_pending_def canbox_abs_def)
  have v: "?v = take p (tty_buffer c)" "length ?v = p" using ok p by (auto simp: rx_pending_def rx_ok_def)
  have chr: "memchr_at (tty_buffer c) 0 x s = Some (if x \<in> set ?v then Some (length (takeWhile (\<lambda>y. y \<noteq> x) ?v)) else None)"
    if "x \<noteq> 0" for x
    unfolding v(1) by (rule memchr_at_prefix) (use s that rx_okD(1) [OF ok] in auto)
  have turn: "canbox_turn env s c =
      (if ?head \<in> set ?v then canbox_at_head env (length (takeWhile (\<lambda>y. y \<noteq> ?head) ?v)) c0
       else Some (Return (c0\<lparr>tty_buffer_pos := 0\<rparr>)))"
    using chr [of ?ack] chr [of ?head] c0(2)
    by (simp add: canbox_turn_def c0_def CANBOX_PROTOCAL_FRAME_COMMAND_ACK_def CANBOX_PROTOCAL_FRAME_START_BYTE_def)
  show ?thesis
  proof (cases "?head \<in> set ?v")
    case True
    let ?h = "length (takeWhile (\<lambda>y. y \<noteq> ?head) ?v)"
    have "?h < p" using length_takeWhile_before [OF True] v(2) by simp
    moreover have "dropWhile (\<lambda>y. y \<noteq> ?head) (rx_pending c0) = drop ?h (rx_pending c0)"
      unfolding c0(4) by (rule dropWhile_eq_drop)
    ultimately show ?thesis
      using canbox_at_head_abs [OF c0(1) c0(3) p(3), of ?h env] unfolding turn c0(2,4,5,6) by (simp only: True if_True)
  next
    case False
    then have nil: "dropWhile (\<lambda>y. y \<noteq> ?head) ?v = []" by (simp add: dropWhile_eq_Nil_conv) blast
    have "canbox_cut (tty_buffer c ! p) ?v = Wait []" unfolding canbox_cut_def nil by simp
    moreover have "rx_ok (c0\<lparr>tty_buffer_pos := 0\<rparr>)" "canbox_abs (c0\<lparr>tty_buffer_pos := 0\<rparr>) = (canbox_abs c0)\<lparr>cp_pending := []\<rparr>"
      using c0(1) by (simp_all add: rx_ok_def canbox_abs_def rx_pending_def)
    moreover have "tail_lapse ?v = {}" unfolding tail_lapse_def nil by (simp add: overlap_lapse_def)
    ultimately show ?thesis using False turn c0(5) by simp
  qed
qed

lemma canbox_loop_abs:
  assumes "rx_ok c" "tty_buffer_pos c = int p" "0 < p" "p < 528"
    and "p \<le> nat s" "0 \<le> s" "s \<le> 528" "\<And>i. p \<le> i \<Longrightarrow> i < nat s \<Longrightarrow> tty_buffer c ! i = 0"
  shows "rel_option (\<lambda>d a. rx_ok d \<and> canbox_abs d = a) (canbox_loop env s c) (cp_check env (tty_buffer c ! p) (canbox_abs c))"
  using assms
proof (induction p arbitrary: c rule: less_induct)
  case (less p)
  note prems = less.prems
  define a0 where "a0 = (if CANBOX_PROTOCAL_FRAME_COMMAND_ACK \<in> set (rx_pending c)
      then (canbox_abs c)\<lparr>cp_sem_command := post (cp_sem_command (canbox_abs c))\<rparr> else canbox_abs c)"
  have pend: "cp_pending (canbox_abs c) = rx_pending c" by (simp add: canbox_abs_def)
  note turn = canbox_turn_abs [OF prems, of env, folded a0_def]
  have spec: "cp_check env (tty_buffer c ! p) (canbox_abs c) = (case canbox_cut (tty_buffer c ! p) (rx_pending c) of
           Wait r \<Rightarrow> Some (a0\<lparr>cp_pending := r, cp_lapses := cp_lapses a0 \<union> tail_lapse (rx_pending c)\<rparr>)
         | Frame f r \<Rightarrow>
             (case cp_accept env f a0 of
                None \<Rightarrow> None
              | Some a \<Rightarrow> if r = [] then Some (a\<lparr>cp_pending := r\<rparr>) else cp_check env 0 (a\<lparr>cp_pending := r\<rparr>)))"
    by (subst cp_check.simps) (simp only: pend Let_def a0_def)
  show ?case
  proof (cases "canbox_cut (tty_buffer c ! p) (rx_pending c)")
    case (Wait r)
    with turn spec show ?thesis by (auto simp: canbox_loop.simps [of env s c])
  next
    case (Frame f r)
    show ?thesis
    proof (cases "cp_accept env f a0")
      case None
      with Frame turn spec show ?thesis by (auto simp: canbox_loop.simps [of env s c])
    next
      case (Some a)
      with Frame turn obtain d where
        d: "canbox_turn env s c = Some (if r = [] then Return d else Continue d)" "rx_ok d" "rx_clear d"
          "canbox_abs d = a\<lparr>cp_pending := r\<rparr>" by auto
      show ?thesis
      proof (cases "r = []")
        case True
        with d Frame Some spec show ?thesis by (simp add: canbox_loop.simps [of env s c])
      next
        case False
        have r: "rx_pending d = r" using arg_cong [OF d(4), of cp_pending] by (simp add: canbox_abs_def)
        then have pos: "tty_buffer_pos d = int (length r)" using length_rx_pending [OF d(2)] rx_okD(3) [OF d(2)] by auto
        have lt: "length r < p"
          using canbox_cut_shorter [OF Frame] False length_rx_pending [OF prems(1)] prems(2) by simp
        have z: "tty_buffer d ! i = 0" if "length r \<le> i" "i < 528" for i
          using d(3) pos that by (simp add: rx_clear_def)
        have "rel_option (\<lambda>d a. rx_ok d \<and> canbox_abs d = a) (canbox_loop env s d) (cp_check env (tty_buffer d ! length r) (canbox_abs d))"
          using less.IH [OF lt d(2) pos] False lt prems z by auto
        moreover have "tty_buffer d ! length r = 0" using z lt prems by auto
        ultimately show ?thesis using False d Frame Some spec by (simp add: canbox_loop.simps [of env s c])
      qed
    qed
  qed
qed

section \<open>The receive buffer is large enough\<close>

lemma canbox_check_abs:
  assumes "rx_ok c" "tty_buffer_pos c < 528"
  shows "rel_option (\<lambda>d a. rx_ok d \<and> canbox_abs d = a) (canbox_check_full_command env c)
    (if tty_buffer_pos c = 0 then Some (canbox_abs c) else cp_check env (tty_buffer c ! nat (tty_buffer_pos c)) (canbox_abs c))"
proof (cases "tty_buffer_pos c = 0")
  case False
  then obtain p where p: "tty_buffer_pos c = int p" "0 < p" "p < 528"
    using assms rx_okD(3) [OF assms(1)] by (metis nat_0_le of_nat_0_less_iff of_nat_less_iff of_nat_numeral order_le_less)
  then show ?thesis using canbox_loop_abs [OF assms(1) p, of "int p" env] False
    by (simp add: canbox_check_full_command_def)
qed (use assms in \<open>simp add: canbox_check_full_command_def\<close>)

lemma canbox_cut_wait: "canbox_cut stale v = Wait r \<Longrightarrow> length r \<le> 257"
  using byte_range(2) [of "dropWhile (\<lambda>x. x \<noteq> CANBOX_PROTOCAL_FRAME_START_BYTE) v ! 2"]
  by (auto simp: canbox_cut_def Let_def split: if_splits)

lemma cp_check_pending: "cp_check env stale a = Some b \<Longrightarrow> length (cp_pending b) \<le> 257"
proof (induction env stale a arbitrary: b rule: cp_check.induct)
  case (1 env stale a)
  show ?case
  proof (cases "canbox_cut stale (cp_pending a)")
    case (Wait r)
    then show ?thesis using "1.prems" canbox_cut_wait [OF Wait] by (auto simp: cp_check.simps [of env stale a] Let_def)
  next
    case (Frame f r)
    then show ?thesis using "1.prems" "1.IH" [OF refl refl Frame]
      by (auto simp: cp_check.simps [of env stale a] Let_def split: option.splits if_splits)
  qed
qed

lemma canbox_check_keeps:
  assumes "rx_ok c" "tty_buffer_pos c \<le> 321" "canbox_check_full_command env c = Some d"
  shows "rx_ok d \<and> tty_buffer_pos d \<le> 257"
proof (cases "tty_buffer_pos c = 0")
  case False
  then have "rx_ok d" and d: "cp_check env (tty_buffer c ! nat (tty_buffer_pos c)) (canbox_abs c) = Some (canbox_abs d)"
    using canbox_check_abs [OF assms(1), of env] assms(2,3) by (auto simp: option_rel_Some1)
  moreover have "length (rx_pending d) \<le> 257" using cp_check_pending [OF d] by (simp add: canbox_abs_def)
  ultimately show ?thesis using length_rx_pending by fastforce
qed (use assms in \<open>auto simp: canbox_check_full_command_def\<close>)

interpretation canbox_rx: receive_buffer "canbox_check_full_command env" 257 64 for env
  by unfold_locales (use canbox_check_keeps in auto)

end
