(* ===== verification/Canbox_Delivery.thy ===== *)
theory Canbox_Delivery
  imports Canbox
begin

text \<open>
  What the CAN box driver does for the devices at its two ends: which frames reach the queue when
  they arrive in pieces, which are refused, when the read thread runs into undefined behaviour, and
  what a sender learns from \<open>canbox_write\<close>.
\<close>

section \<open>Frames\<close>

definition canbox_frame :: "bytes \<Rightarrow> bool" where
  "canbox_frame f = (length f \<ge> 4 \<and> f ! 0 = CANBOX_PROTOCAL_FRAME_START_BYTE \<and> length f = unat (f ! 2) + 4 \<and> canbox_valid f)"

lemma dropWhile_head: "v \<noteq> [] \<Longrightarrow> v ! 0 = x \<Longrightarrow> dropWhile (\<lambda>y. y \<noteq> x) v = v"
  by (cases v) auto

text \<open>Cutting bytes that start with a whole frame, and with a piece of one.\<close>

lemma canbox_cut_whole:
  assumes "length f = unat (f ! 2) + 4" "f ! 0 = CANBOX_PROTOCAL_FRAME_START_BYTE"
  shows "canbox_cut stale (f @ rest) = Frame f rest"
proof -
  have "f \<noteq> []" using assms(1) by auto
  then have "dropWhile (\<lambda>y. y \<noteq> CANBOX_PROTOCAL_FRAME_START_BYTE) (f @ rest) = f @ rest"
    using assms(2) by (intro dropWhile_head) (auto simp: nth_append)
  then show ?thesis using assms(1) by (simp add: canbox_cut_def Let_def nth_append)
qed

lemma canbox_cut_piece:
  assumes "length f = unat (f ! 2) + 4" "f ! 0 = CANBOX_PROTOCAL_FRAME_START_BYTE" "k < length f" "k \<noteq> length f - 1"
  shows "canbox_cut stale (take k f) = Wait (take k f)"
proof (cases "k = 0")
  case False
  then have "dropWhile (\<lambda>y. y \<noteq> CANBOX_PROTOCAL_FRAME_START_BYTE) (take k f) = take k f"
    using assms by (intro dropWhile_head) auto
  then show ?thesis using assms by (simp add: canbox_cut_def Let_def min_def) arith
qed (simp add: canbox_cut_def)

text \<open>With only the checksum missing, the frame is cut with the byte the buffer happens to hold.\<close>

lemma canbox_cut_early:
  assumes "length f = unat (f ! 2) + 4" "f ! 0 = CANBOX_PROTOCAL_FRAME_START_BYTE" "length f > 4"
  shows "canbox_cut stale (butlast f) = Frame (butlast f @ [stale]) []"
proof -
  have f: "length (butlast f) = unat (f ! 2) + 3" "butlast f ! 0 = f ! 0" "butlast f ! 2 = f ! 2"
    using assms(1) by (simp_all add: nth_butlast)
  have "dropWhile (\<lambda>y. y \<noteq> CANBOX_PROTOCAL_FRAME_START_BYTE) (butlast f) = butlast f"
    using assms f(2) by (intro dropWhile_head) (auto simp: length_0_conv [symmetric] simp del: length_0_conv)
  then show ?thesis using f assms by (simp add: canbox_cut_def Let_def)
qed

section \<open>Running through frames\<close>

text \<open>The bytes of a queued notification that belong to the frame.\<close>

definition note_bytes :: "canbox_notification \<Rightarrow> bytes" where
  "note_bytes n = take (nat (cn_buffer_size n)) (cn_data n)"

lemma note_bytes_note: "note_bytes (canbox_note env k f) = f"
  by (simp add: note_bytes_def canbox_note_def)

definition cp_sees :: "canbox_port \<Rightarrow> bytes list \<times> tty_out" where
  "cp_sees a = (map note_bytes (nq_head (cp_queue a)), cp_out a)"

lemma cp_accept_frame:
  assumes "canbox_frame f" "length f \<le> 64" "\<And>k. ce_malloc env k \<noteq> 0"
  obtains b where "cp_accept env f a = Some b" "cp_pending b = cp_pending a"
    "cp_sees b = (fst (cp_sees a) @ [f], snd (cp_sees a) @ [[0xFF]])"
  using assms by (auto simp: cp_accept_def canbox_frame_def Let_def cp_ack_def cp_sees_def note_bytes_note)

lemma cp_check_frames:
  assumes "\<forall>f \<in> set gs. canbox_frame f \<and> length f \<le> 64" "\<And>k. ce_malloc env k \<noteq> 0"
    and part: "part = [] \<or> (\<exists>g k. canbox_frame g \<and> part = take k g \<and> k < length g - 1)"
    and "cp_pending a = concat gs @ part"
  shows "\<exists>b. cp_check env stale a = Some b \<and> cp_pending b = part \<and>
    cp_sees b = (fst (cp_sees a) @ gs, snd (cp_sees a) @ map (\<lambda>_. [0xFF]) gs)"
  using assms(1,4)
proof (induction gs arbitrary: a stale)
  case Nil
  have "canbox_cut stale part = Wait part"
    using part canbox_cut_piece by (auto simp: canbox_frame_def canbox_cut_def)
  with Nil show ?case by (auto simp: cp_check.simps [of env stale a] Let_def cp_sees_def)
next
  case (Cons f gs)
  define a0 where "a0 = (if CANBOX_PROTOCAL_FRAME_COMMAND_ACK \<in> set (cp_pending a)
      then a\<lparr>cp_sem_command := post (cp_sem_command a)\<rparr> else a)"
  have sees0: "cp_sees a0 = cp_sees a" by (simp add: a0_def cp_sees_def)
  have f: "canbox_frame f" "length f \<le> 64" using Cons.prems(1) by auto
  obtain b where b: "cp_accept env f a0 = Some b" "cp_sees b = (fst (cp_sees a0) @ [f], snd (cp_sees a0) @ [[0xFF]])"
    using cp_accept_frame [OF f assms(2)] by blast
  let ?b = "b\<lparr>cp_pending := concat gs @ part\<rparr>"
  have sees: "cp_sees ?b = (fst (cp_sees a) @ [f], snd (cp_sees a) @ [[0xFF]])"
    using b(2) sees0 by (simp add: cp_sees_def)
  have cut: "canbox_cut stale (cp_pending a) = Frame f (concat gs @ part)"
    using Cons.prems canbox_cut_whole [of f stale "concat gs @ part"] by (simp add: canbox_frame_def)
  have run: "cp_check env stale a = (if concat gs @ part = [] then Some ?b else cp_check env 0 ?b)"
    by (subst cp_check.simps) (simp only: Let_def cut canbox_piece.case a0_def [symmetric] b(1) option.case)
  show ?case
  proof (cases "concat gs @ part = []")
    case True
    moreover from this have "gs = []"
      using Cons.prems(1) by (cases gs) (auto simp: canbox_frame_def)
    ultimately show ?thesis using run sees by simp
  next
    case False
    with run Cons.IH [of ?b 0] Cons.prems(1) sees show ?thesis by auto
  qed
qed

text \<open>
  Frames cut anywhere: \<open>before_checksum fs cs\<close> holds when one of the pieces \<open>cs\<close> ends
  right before the checksum of one of the frames \<open>fs\<close>.
\<close>

definition before_checksum :: "bytes list \<Rightarrow> bytes list \<Rightarrow> bool" where
  "before_checksum fs cs =
     (\<exists>k \<in> set [0..<Suc (length cs)]. \<exists>j \<in> set [0..<length fs]. concat (take k cs) = concat (take j fs) @ butlast (fs ! j))"

lemma canbox_check_frames:
  assumes "rx_ok c" "tty_buffer_pos c < 528" "\<And>k. ce_malloc env k \<noteq> 0"
    and "\<forall>f \<in> set gs. canbox_frame f \<and> length f \<le> 64"
    and "part = [] \<or> (\<exists>g k. canbox_frame g \<and> part = take k g \<and> k < length g - 1)"
    and "rx_pending c = concat gs @ part"
  shows "\<exists>d. canbox_check_full_command env c = Some d \<and> rx_ok d \<and> rx_pending d = part \<and>
    cp_sees (canbox_abs d) = (fst (cp_sees (canbox_abs c)) @ gs, snd (cp_sees (canbox_abs c)) @ map (\<lambda>_. [0xFF]) gs)"
proof (cases "tty_buffer_pos c = 0")
  case True
  then have "concat gs @ part = []" using assms(1,6) length_rx_pending by fastforce
  moreover from this have "gs = []" using assms(4) by (cases gs) (auto simp: canbox_frame_def)
  ultimately show ?thesis using True assms(1,6) by (simp add: canbox_check_full_command_def)
next
  case False
  have "cp_pending (canbox_abs c) = concat gs @ part" using assms(6) by (simp add: canbox_abs_def)
  from cp_check_frames [OF assms(4,3,5) this] obtain b where
    b: "cp_check env (tty_buffer c ! nat (tty_buffer_pos c)) (canbox_abs c) = Some b" "cp_pending b = part"
      "cp_sees b = (fst (cp_sees (canbox_abs c)) @ gs, snd (cp_sees (canbox_abs c)) @ map (\<lambda>_. [0xFF]) gs)" by blast
  then obtain d where "canbox_check_full_command env c = Some d" "rx_ok d" "canbox_abs d = b"
    using canbox_check_abs [OF assms(1,2), of env] False by (auto simp: option_rel_Some2)
  with b show ?thesis by (auto simp: canbox_abs_def)
qed

lemma canbox_thread_frames:
  assumes "\<And>k. ce_malloc env k \<noteq> 0" "\<forall>f \<in> set fs. canbox_frame f \<and> length f \<le> 64" "\<forall>x \<in> set cs. length x \<le> 64"
    and "rx_ok c" "tty_buffer_pos c \<le> 257" "rx_pending c @ concat cs = concat fs" "fs \<noteq> [] \<Longrightarrow> length (rx_pending c) < length (hd fs)"
    and "\<And>k j. k \<le> length cs \<Longrightarrow> j < length fs \<Longrightarrow> rx_pending c @ concat (take k cs) \<noteq> concat (take j fs) @ butlast (fs ! j)"
  shows "\<exists>d. read_thread 300 (canbox_check_full_command env) r (map Read_bytes cs) c = Some (False, d) \<and>
    rx_ok d \<and> rx_pending d = [] \<and>
    cp_sees (canbox_abs d) = (fst (cp_sees (canbox_abs c)) @ fs, snd (cp_sees (canbox_abs c)) @ map (\<lambda>_. [0xFF]) fs)"
  using assms(2-)
proof (induction cs arbitrary: c fs)
  case Nil
  then have "fs = []" by (cases fs) auto
  with Nil show ?case by auto
next
  case (Cons x cs)
  note prems = Cons.prems
  have "(rx_pending c @ x) @ concat cs = concat fs" using prems(5) by simp
  moreover have "\<forall>f \<in> set fs. f \<noteq> []" using prems(1) by (auto simp: canbox_frame_def)
  ultimately obtain gs hs part where dec: "fs = gs @ hs" "rx_pending c @ x = concat gs @ part" "part @ concat cs = concat hs"
    "part = [] \<or> (\<exists>h hs' k. hs = h # hs' \<and> part = take k h \<and> k < length h)" by (rule concat_prefix)
  have part: "part = [] \<or> (\<exists>h hs' k. hs = h # hs' \<and> part = take k h \<and> k < length h - 1)"
  proof (rule ccontr)
    assume not: "\<not> ?thesis"
    with dec(4) obtain h hs' k where h: "hs = h # hs'" "part = take k h" "k < length h" by blast
    with not have "k = length h - 1" by (metis Suc_pred' diff_Suc_1 length_pos_if_in_set less_SucE less_nat_zero_code not_gr_zero)
    with h have "part = butlast h" by (simp add: butlast_conv_take)
    then show False using prems(7) [of 1 "length gs"] dec(1,2) h(1) by simp
  qed
  have "length x \<le> 64" using prems(2) by simp
  moreover have "tty_buffer_pos c \<le> int 257" using prems(4) by simp
  ultimately obtain u where u: "rx_fill x c = Some u" "rx_ok u" "tty_buffer_pos u \<le> int (257 + 64)"
    "rx_pending u = rx_pending c @ x" "rx.more u = rx.more c"
    using canbox_rx.fill_ok [OF prems(3)] by metis
  have sees: "cp_sees (canbox_abs u) = cp_sees (canbox_abs c)"
    using u(5) by (cases u, cases c) (simp add: cp_sees_def canbox_abs_def)
  have "\<forall>f \<in> set gs. canbox_frame f \<and> length f \<le> 64" using prems(1) dec(1) by simp
  moreover have "part = [] \<or> (\<exists>g k. canbox_frame g \<and> part = take k g \<and> k < length g - 1)"
    using part prems(1) dec(1) by auto
  ultimately obtain v where v: "canbox_check_full_command env u = Some v" "rx_ok v" "rx_pending v = part"
    "cp_sees (canbox_abs v) = (fst (cp_sees (canbox_abs c)) @ gs, snd (cp_sees (canbox_abs c)) @ map (\<lambda>_. [0xFF]) gs)"
    using canbox_check_frames [OF u(2) _ assms(1), of gs part] u(3,4) dec(2) unfolding sees by auto
  have "\<exists>d. read_thread 300 (canbox_check_full_command env) r (map Read_bytes cs) v = Some (False, d) \<and>
    rx_ok d \<and> rx_pending d = [] \<and>
    cp_sees (canbox_abs d) = (fst (cp_sees (canbox_abs v)) @ hs, snd (cp_sees (canbox_abs v)) @ map (\<lambda>_. [0xFF]) hs)"
  proof (rule Cons.IH)
    show "tty_buffer_pos v \<le> 257" using canbox_check_keeps [OF u(2) _ v(1)] u(3) by simp
    show "length (rx_pending v) < length (hd hs)" if "hs \<noteq> []"
      using part v(3) that prems(1) dec(1) by (cases hs) (auto simp: canbox_frame_def)
    show "rx_pending v @ concat (take k cs) \<noteq> concat (take j hs) @ butlast (hs ! j)" if "k \<le> length cs" "j < length hs" for k j
    proof -
      have "rx_pending c @ x @ concat (take k cs) = concat gs @ rx_pending v @ concat (take k cs)"
        using dec(2) v(3) by (metis append_assoc)
      moreover have "rx_pending c @ x @ concat (take k cs) \<noteq> concat gs @ concat (take j hs) @ butlast (hs ! j)"
        using prems(7) [of "Suc k" "length gs + j"] that dec(1) by simp
      ultimately show ?thesis by metis
    qed
  qed (use prems dec v in auto)
  with u(1) v show ?case by (auto simp: dec(1))
qed

section \<open>When the handling of frames faults\<close>

function canbox_frames :: "u8 \<Rightarrow> bytes \<Rightarrow> bytes list" where
  "canbox_frames stale v =
     (case canbox_cut stale v of
        Wait r \<Rightarrow> []
      | Frame f r \<Rightarrow> f # (if r = [] then [] else canbox_frames 0 r))"
  by auto
termination by (relation "measure (\<lambda>(stale, v). length v)") (auto dest: canbox_cut_shorter)

declare canbox_frames.simps [simp del]

text \<open>The bytes left to look at when no frame can be cut any more.\<close>

function canbox_rest :: "u8 \<Rightarrow> bytes \<Rightarrow> bytes" where
  "canbox_rest stale v =
     (case canbox_cut stale v of
        Wait r \<Rightarrow> v
      | Frame f r \<Rightarrow> if r = [] then [] else canbox_rest 0 r)"
  by auto
termination by (relation "measure (\<lambda>(stale, v). length v)") (auto dest: canbox_cut_shorter)

declare canbox_rest.simps [simp del]

definition canbox_bad :: "canbox_env \<Rightarrow> nat \<Rightarrow> bytes \<Rightarrow> bool" where
  "canbox_bad env k f = (length f > 256 \<or> canbox_valid f \<and> (length f > 64 \<or> ce_malloc env k = 0))"

fun any_bad :: "canbox_env \<Rightarrow> nat \<Rightarrow> bytes list \<Rightarrow> bool" where
  "any_bad env k [] = False"
| "any_bad env k (f # fs) = (canbox_bad env k f \<or> any_bad env (Suc k) fs)"

lemma cp_accept_None: "cp_accept env f a = None \<longleftrightarrow> canbox_bad env (cp_calls a) f"
  by (simp add: cp_accept_def canbox_bad_def Let_def)

lemma cp_accept_calls: "cp_accept env f a = Some b \<Longrightarrow> cp_calls b = Suc (cp_calls a)"
  by (auto simp: cp_accept_def Let_def cp_ack_def split: if_splits)

lemma cp_check_None: "cp_check env stale a = None \<longleftrightarrow> any_bad env (cp_calls a) (canbox_frames stale (cp_pending a))"
proof (induction env stale a rule: cp_check.induct)
  case (1 env stale a)
  define a0 where "a0 = (if CANBOX_PROTOCAL_FRAME_COMMAND_ACK \<in> set (cp_pending a)
      then a\<lparr>cp_sem_command := post (cp_sem_command a)\<rparr> else a)"
  have calls: "cp_calls a0 = cp_calls a" by (simp add: a0_def)
  show ?case
  proof (cases "canbox_cut stale (cp_pending a)")
    case (Wait r)
    then show ?thesis by (simp add: cp_check.simps [of env stale a] canbox_frames.simps [of stale] Let_def)
  next
    case (Frame f r)
    have run: "cp_check env stale a = (case cp_accept env f a0 of None \<Rightarrow> None
        | Some b \<Rightarrow> if r = [] then Some (b\<lparr>cp_pending := r\<rparr>) else cp_check env 0 (b\<lparr>cp_pending := r\<rparr>))"
      by (subst cp_check.simps) (simp only: Let_def Frame canbox_piece.case a0_def)
    have fs: "canbox_frames stale (cp_pending a) = f # (if r = [] then [] else canbox_frames 0 r)"
      by (subst canbox_frames.simps) (simp add: Frame)
    show ?thesis
    proof (cases "cp_accept env f a0")
      case None
      then show ?thesis using run fs cp_accept_None [of env f a0] calls by simp
    next
      case (Some b)
      then have nb: "\<not> canbox_bad env (cp_calls a) f" using cp_accept_None [of env f a0] calls by simp
      from Some have "cp_calls b = Suc (cp_calls a)" using cp_accept_calls calls by metis
      moreover have "cp_check env 0 (b\<lparr>cp_pending := r\<rparr>) = None \<longleftrightarrow>
          any_bad env (cp_calls (b\<lparr>cp_pending := r\<rparr>)) (canbox_frames 0 (cp_pending (b\<lparr>cp_pending := r\<rparr>)))" if "r \<noteq> []"
        using "1.IH" [OF refl refl Frame Some [unfolded a0_def] that] .
      ultimately show ?thesis using run fs nb Some by auto
    qed
  qed
qed

text \<open>Every frame is answered, and every answer logged as a string that does not end.\<close>

lemma cp_accept_lapses: "cp_accept env f a = Some b \<Longrightarrow> cp_lapses b = cp_lapses a \<union> {Log_overread}"
  by (auto simp: cp_accept_def Let_def cp_ack_def log_lapse_def split: if_splits)

lemma tail_lapse_Nil [simp]: "tail_lapse [] = {}"
  by (simp add: tail_lapse_def overlap_lapse_def)

lemma cp_check_lapses:
  "cp_check env stale a = Some b \<Longrightarrow> cp_lapses b = cp_lapses a \<union>
     (if canbox_frames stale (cp_pending a) = [] then {} else {Log_overread}) \<union> tail_lapse (canbox_rest stale (cp_pending a))"
proof (induction env stale a arbitrary: b rule: cp_check.induct)
  case (1 env stale a)
  define a0 where "a0 = (if CANBOX_PROTOCAL_FRAME_COMMAND_ACK \<in> set (cp_pending a)
      then a\<lparr>cp_sem_command := post (cp_sem_command a)\<rparr> else a)"
  have a0: "cp_lapses a0 = cp_lapses a" by (simp add: a0_def)
  show ?case
  proof (cases "canbox_cut stale (cp_pending a)")
    case (Wait r)
    then show ?thesis using "1.prems"
      by (auto simp: cp_check.simps [of env stale a] canbox_frames.simps [of stale] canbox_rest.simps [of stale] Let_def split: if_splits)
  next
    case (Frame f r)
    have run: "cp_check env stale a = (case cp_accept env f a0 of None \<Rightarrow> None
        | Some b \<Rightarrow> if r = [] then Some (b\<lparr>cp_pending := r\<rparr>) else cp_check env 0 (b\<lparr>cp_pending := r\<rparr>))"
      by (subst cp_check.simps) (simp only: Let_def Frame canbox_piece.case a0_def)
    with "1.prems" obtain d where d: "cp_accept env f a0 = Some d"
      "(if r = [] then Some (d\<lparr>cp_pending := r\<rparr>) else cp_check env 0 (d\<lparr>cp_pending := r\<rparr>)) = Some b"
      by (auto split: option.splits)
    have l: "cp_lapses d = cp_lapses a \<union> {Log_overread}" using cp_accept_lapses [OF d(1)] a0 by simp
    have fs: "canbox_frames stale (cp_pending a) \<noteq> []" by (subst canbox_frames.simps) (simp add: Frame)
    have rest: "canbox_rest stale (cp_pending a) = (if r = [] then [] else canbox_rest 0 r)"
      by (subst canbox_rest.simps) (simp add: Frame)
    show ?thesis
    proof (cases "r = []")
      case True
      then have "cp_lapses b = cp_lapses d" "canbox_rest stale (cp_pending a) = []" using d(2) rest by auto
      then show ?thesis using l fs by simp
    next
      case False
      then have "cp_check env 0 (d\<lparr>cp_pending := r\<rparr>) = Some b" using d(2) by simp
      from "1.IH" [OF refl refl Frame d(1) [unfolded a0_def] False this]
      have b: "cp_lapses b = cp_lapses d \<union> (if canbox_frames 0 r = [] then {} else {Log_overread}) \<union> tail_lapse (canbox_rest 0 r)"
        by simp
      have "canbox_rest stale (cp_pending a) = canbox_rest 0 r" using rest False by simp
      then show ?thesis unfolding b l using fs by simp
    qed
  qed
qed

lemma canbox_check_None:
  assumes "rx_ok c" "tty_buffer_pos c < 528"
  shows "canbox_check_full_command env c = None \<longleftrightarrow> tty_buffer_pos c \<noteq> 0 \<and>
    any_bad env (cb_calls c) (canbox_frames (tty_buffer c ! nat (tty_buffer_pos c)) (rx_pending c))"
proof -
  have "cp_check env stale (canbox_abs c) = None \<longleftrightarrow> any_bad env (cb_calls c) (canbox_frames stale (rx_pending c))" for stale
    using cp_check_None [of env stale "canbox_abs c"] by (simp add: canbox_abs_def)
  note spec = this [of "tty_buffer c ! nat (tty_buffer_pos c)"]
  show ?thesis
  proof (cases "tty_buffer_pos c = 0")
    case False
    with canbox_check_abs [OF assms, of env] have
      "canbox_check_full_command env c = None \<longleftrightarrow> cp_check env (tty_buffer c ! nat (tty_buffer_pos c)) (canbox_abs c) = None"
      by (auto simp: rel_option_iff split: option.splits)
    with False spec show ?thesis by simp
  qed (simp add: canbox_check_full_command_def)
qed

section \<open>Properties\<close>

lemma canbox_init_ok:
  "rx_ok canbox_init" "tty_buffer_pos canbox_init = 0" "rx_pending canbox_init = []" "cp_sees (canbox_abs canbox_init) = ([], [])"
  by (simp_all add: canbox_init_def rx_ok_def rx_pending_def cp_sees_def canbox_abs_def nq_init_def)

text \<open>
  C1. Receiving implements the promise on bytes: whatever the buffers hold, running
  \<open>check_full_command\<close> is cutting the received bytes into frames and handling each, with
  undefined behaviour exactly where the promise has none. The byte behind the received ones is part
  of the input because the code uses it as a checksum that has not arrived.
\<close>

theorem canbox_check_refines:
  assumes "rx_ok c" "tty_buffer_pos c < 528"
  shows "map_option canbox_abs (canbox_check_full_command env c) =
    (if tty_buffer_pos c = 0 then Some (canbox_abs c)
     else cp_check env (tty_buffer c ! nat (tty_buffer_pos c)) (canbox_abs c))"
  using canbox_check_abs [OF assms, of env] by (auto simp: rel_option_iff split: option.splits)

text \<open>
  C26. What goes wrong while receiving, frame by frame. The model stops exactly when one of the frames
  cut is longer than the 256 bytes of \<open>command\<close>, or has a correct checksum and is longer than the 64
  bytes of a notification, or has a correct checksum and \<open>malloc\<close> returns null for it. When it does not
  stop, what C leaves undefined on the way is known too: \<open>canbox_write\<close> has logged the acknowledgement, one
  byte with no terminator, as a string exactly when some frame was cut, and \<open>memcpy\<close> has copied bytes over
  themselves exactly when, after the last frame, one to three bytes from a start byte on were left that lay nearer to the
  front of the buffer than their number.
\<close>

theorem canbox_fault_iff:
  assumes "rx_ok c" "0 < tty_buffer_pos c" "tty_buffer_pos c < 528"
  defines "stale \<equiv> tty_buffer c ! nat (tty_buffer_pos c)"
  shows "(canbox_check_full_command env c = None \<longleftrightarrow> any_bad env (cb_calls c) (canbox_frames stale (rx_pending c))) \<and>
    (\<forall>d. canbox_check_full_command env c = Some d \<longrightarrow>
       cb_lapses d = cb_lapses c \<union> (if canbox_frames stale (rx_pending c) = [] then {} else {Log_overread}) \<union>
         tail_lapse (canbox_rest stale (rx_pending c)))"
proof -
  have abs: "cp_pending (canbox_abs e) = rx_pending e" "cp_calls (canbox_abs e) = cb_calls e" "cp_lapses (canbox_abs e) = cb_lapses e"
    for e by (simp_all add: canbox_abs_def)
  have check: "rel_option (\<lambda>d a. rx_ok d \<and> canbox_abs d = a) (canbox_check_full_command env c) (cp_check env stale (canbox_abs c))"
    using canbox_check_abs [OF assms(1,3), of env] assms(2) by (simp add: stale_def)
  show ?thesis
  proof (cases "canbox_check_full_command env c")
    case None
    then show ?thesis using check cp_check_None [of env stale "canbox_abs c"] by (simp add: abs)
  next
    case (Some d)
    with check have d: "cp_check env stale (canbox_abs c) = Some (canbox_abs d)" by (auto simp: option_rel_Some1)
    then show ?thesis using Some cp_check_None [of env stale "canbox_abs c"] cp_check_lapses [OF d] by (simp add: abs)
  qed
qed

text \<open>
  C21. The read thread stays inside its buffers. From the initial state, after any rounds of at most 64
  bytes that it survives, at most 257 bytes are kept. The next read of at most 64 bytes is then copied
  wholly inside \<open>tty_buffer\<close>, within its first 321 bytes, right behind the bytes kept, and leaves buffers of the right
  shape. Whether this round stops the thread is decided by \<open>check_full_command\<close> alone: it stops exactly when one of the
  frames cut from the bytes kept and read is one that the driver has no room for or \<open>malloc\<close> fails for.
\<close>

theorem canbox_thread_buffers:
  assumes "\<forall>e \<in> set es. fits_buf 64 e" "length bs \<le> 64" "canbox_read_thread_func env es canbox_init = Some (ended, d)"
  shows "rx_ok d \<and> tty_buffer_pos d \<le> 257 \<and>
    (\<exists>u. rx_fill bs d = Some u \<and> rx_ok u \<and> tty_buffer_pos u \<le> 321 \<and> rx_pending u = rx_pending d @ bs \<and>
      (\<not> ended \<longrightarrow>
        (canbox_read_thread_func env (es @ [Read_bytes bs]) canbox_init = None \<longleftrightarrow>
          tty_buffer_pos u \<noteq> 0 \<and>
          any_bad env (cb_calls d) (canbox_frames (tty_buffer u ! nat (tty_buffer_pos u)) (rx_pending d @ bs)))))"
proof -
  from assms(3) have run: "read_thread 300 (canbox_check_full_command env) 0 es canbox_init = Some (ended, d)"
    by (simp add: canbox_read_thread_func_def)
  have "tty_buffer_pos canbox_init \<le> int 257" by (simp add: canbox_init_ok)
  from canbox_rx.thread_next [OF canbox_init_ok(1) this assms(1,2) run]
  obtain u where u: "rx_ok d" "tty_buffer_pos d \<le> int 257" "rx_fill bs d = Some u" "rx_ok u" "tty_buffer_pos u \<le> int (257 + 64)"
    "rx_pending u = rx_pending d @ bs" "rx.more u = rx.more d"
    "\<not> ended \<Longrightarrow> read_thread 300 (canbox_check_full_command env) 0 (es @ [Read_bytes bs]) canbox_init =
       map_option (Pair False) (canbox_check_full_command env u)" by blast
  have calls: "cb_calls u = cb_calls d" using u(7) by (cases u, cases d) simp
  have "canbox_check_full_command env u = None \<longleftrightarrow> tty_buffer_pos u \<noteq> 0 \<and>
      any_bad env (cb_calls d) (canbox_frames (tty_buffer u ! nat (tty_buffer_pos u)) (rx_pending d @ bs))"
    using canbox_check_None [OF u(4), of env] u(5,6) calls by simp
  with u show ?thesis by (auto simp: canbox_read_thread_func_def)
qed

text \<open>
  C2. Delivery. Frames of at most 64 bytes with correct checksums that arrive back to back, cut
  into any pieces of at most 64 bytes of which none ends right before a checksum, are all queued, in
  order and unchanged, each is acknowledged by \<open>FF\<close>, and nothing stays in the buffer.
\<close>

theorem canbox_delivers:
  assumes "\<forall>f \<in> set fs. canbox_frame f \<and> length f \<le> 64" "\<forall>x \<in> set cs. length x \<le> 64" "concat cs = concat fs"
    "\<not> before_checksum fs cs" "\<forall>k. ce_malloc env k \<noteq> 0"
  shows "\<exists>d. canbox_read_thread_func env (map Read_bytes cs) canbox_init = Some (False, d) \<and>
    map note_bytes (nq_head (cb_queue d)) = fs \<and> cb_out d = map (\<lambda>_. [0xFF]) fs \<and> rx_pending d = []"
proof -
  have "\<exists>d. read_thread 300 (canbox_check_full_command env) 0 (map Read_bytes cs) canbox_init = Some (False, d) \<and>
    rx_ok d \<and> rx_pending d = [] \<and> cp_sees (canbox_abs d) =
      (fst (cp_sees (canbox_abs canbox_init)) @ fs, snd (cp_sees (canbox_abs canbox_init)) @ map (\<lambda>_. [0xFF]) fs)"
  proof (rule canbox_thread_frames)
    show "fs \<noteq> [] \<Longrightarrow> length (rx_pending canbox_init) < length (hd fs)"
      using assms(1) canbox_init_ok by (cases fs) (auto simp: canbox_frame_def)
    show "rx_pending canbox_init @ concat (take k cs) \<noteq> concat (take j fs) @ butlast (fs ! j)"
      if "k \<le> length cs" "j < length fs" for k j
      using assms(4) that canbox_init_ok(3) by (simp add: before_checksum_def del: upt_Suc)
  qed (use assms canbox_init_ok in auto)
  then show ?thesis unfolding canbox_init_ok(4) by (auto simp: canbox_read_thread_func_def cp_sees_def canbox_abs_def)
qed

text \<open>Concrete inputs: an environment, a frame with one byte of data, and a state that holds it.\<close>

definition example_env :: canbox_env where
  "example_env = \<lparr>ce_stack = \<lambda>_ _. 0, ce_malloc = \<lambda>_. 1, ce_write = \<lambda>_. \<lparr>cw_clock = Inl EINVAL, cw_rounds = []\<rparr>\<rparr>"

definition example_frame :: bytes where
  "example_frame = [0x2E, 0x01, 0x01, 0x05, 0xF8]"

definition canbox_holding :: "bytes \<Rightarrow> canbox_state" where
  "canbox_holding v = canbox_init\<lparr>tty_buffer := v @ replicate (528 - length v) 0, tty_buffer_pos := int (length v)\<rparr>"

lemma canbox_holding_ok:
  assumes "length v \<le> 528"
  shows "rx_ok (canbox_holding v)" "tty_buffer_pos (canbox_holding v) = int (length v)" "rx_pending (canbox_holding v) = v"
    "canbox_abs (canbox_holding v) = (canbox_abs canbox_init)\<lparr>cp_pending := v\<rparr>"
  using assms by (simp_all add: canbox_holding_def rx_ok_def rx_pending_def canbox_init_def canbox_abs_def)

lemma rx_fill_init: "length v \<le> 528 \<Longrightarrow> rx_fill v canbox_init = Some (canbox_holding v)"
  by (simp add: rx_fill_def canbox_holding_def canbox_init_def memcpy_at_def)

lemma example_frame_ok: "canbox_frame example_frame" "length example_frame = 5"
  by (simp_all add: example_frame_def canbox_frame_def canbox_valid_def CANBOX_PROTOCAL_FRAME_START_BYTE_def)

theorem canbox_check_refines_witness:
  "map_option canbox_abs (canbox_check_full_command example_env (canbox_holding example_frame)) =
     cp_check example_env 0 ((canbox_abs canbox_init)\<lparr>cp_pending := example_frame\<rparr>)"
  using canbox_check_refines [of "canbox_holding example_frame" example_env] canbox_holding_ok [of example_frame] example_frame_ok
  by (simp add: canbox_holding_def nth_append)

lemma example_cut:
  "canbox_frames 0 example_frame = [example_frame]"
  "canbox_frames 0 (example_frame @ [0x2E]) = [example_frame]" "canbox_rest 0 (example_frame @ [0x2E]) = [0x2E]"
proof -
  have "canbox_cut stale (example_frame @ rest) = Frame example_frame rest" for stale rest
    using canbox_cut_whole [of example_frame stale rest] example_frame_ok by (simp add: canbox_frame_def)
  note cut = this this [of _ "[]", simplified]
  have last: "canbox_cut 0 [0x2E] = Wait [0x2E]" by (simp add: canbox_cut_def CANBOX_PROTOCAL_FRAME_START_BYTE_def)
  show "canbox_frames 0 example_frame = [example_frame]"
    by (simp add: canbox_frames.simps [of 0 example_frame] cut)
  show "canbox_frames 0 (example_frame @ [0x2E]) = [example_frame]"
    by (simp add: canbox_frames.simps [of 0 "example_frame @ [0x2E]"] canbox_frames.simps [of 0 "[0x2E]"] cut last)
  show "canbox_rest 0 (example_frame @ [0x2E]) = [0x2E]"
    by (simp add: canbox_rest.simps [of 0 "example_frame @ [0x2E]"] canbox_rest.simps [of 0 "[0x2E]"] cut last)
qed

text \<open>A frame and the start of the next one: the model goes on, past both things that C leaves undefined.\<close>

theorem canbox_fault_iff_witness:
  "\<exists>d. canbox_check_full_command example_env (canbox_holding (example_frame @ [0x2E])) = Some d \<and>
     cb_lapses d = {Log_overread, Memcpy_overlap}"
proof -
  let ?v = "example_frame @ [0x2E]"
  have h: "rx_ok (canbox_holding ?v)" "tty_buffer_pos (canbox_holding ?v) = 6" "rx_pending (canbox_holding ?v) = ?v"
    "tty_buffer (canbox_holding ?v) ! 6 = 0" "cb_lapses (canbox_holding ?v) = {}"
    using canbox_holding_ok [of ?v] example_frame_ok(2) by (simp_all add: canbox_holding_def canbox_init_def nth_append)
  have "tail_lapse [0x2E] = {Memcpy_overlap}"
    by (simp add: tail_lapse_def overlap_lapse_def CANBOX_PROTOCAL_FRAME_START_BYTE_def)
  moreover have "\<not> any_bad example_env k [example_frame]" for k
    using example_frame_ok(2) by (simp add: canbox_bad_def example_env_def)
  ultimately show ?thesis using canbox_fault_iff [of "canbox_holding ?v" example_env] h by (auto simp: example_cut)
qed

theorem canbox_thread_buffers_witness:
  "\<exists>d. canbox_read_thread_func example_env [Read_bytes example_frame] canbox_init = Some (False, d) \<and> rx_ok d \<and>
    (\<exists>u. rx_fill [0x2E, 0x01] d = Some u \<and> rx_ok u \<and> rx_pending u = rx_pending d @ [0x2E, 0x01])"
proof -
  have "canbox_check_full_command example_env (canbox_holding example_frame) \<noteq> None"
    using canbox_check_None [of "canbox_holding example_frame" example_env] canbox_holding_ok [of example_frame] example_frame_ok
    by (simp add: canbox_holding_def nth_append canbox_bad_def example_env_def example_cut)
  then obtain d where d: "canbox_read_thread_func example_env [Read_bytes example_frame] canbox_init = Some (False, d)"
    using rx_fill_init [of example_frame] example_frame_ok(2) by (auto simp: canbox_read_thread_func_def)
  moreover have "\<forall>e \<in> set [Read_bytes example_frame]. fits_buf 64 e" "length [0x2E, 0x01 :: u8] \<le> 64"
    by (simp_all add: example_frame_ok)
  ultimately show ?thesis using canbox_thread_buffers [of "[Read_bytes example_frame]" "[0x2E, 0x01]" example_env False d] by blast
qed

theorem canbox_delivers_witness:
  "\<exists>d. canbox_read_thread_func example_env [Read_bytes [0x2E, 0x01], Read_bytes [0x01, 0x05, 0xF8]] canbox_init = Some (False, d) \<and>
    map note_bytes (nq_head (cb_queue d)) = [example_frame]"
proof -
  let ?cs = "[[0x2E, 0x01], [0x01, 0x05, 0xF8]] :: bytes list"
  have "\<not> before_checksum [example_frame] ?cs"
    by (simp add: before_checksum_def example_frame_def numeral_2_eq_2)
  moreover have h: "\<forall>f \<in> set [example_frame]. canbox_frame f \<and> length f \<le> 64" "\<forall>k. ce_malloc example_env k \<noteq> 0"
    "\<forall>x \<in> set ?cs. length x \<le> 64" "concat ?cs = concat [example_frame]"
    using example_frame_ok by (simp_all add: example_env_def example_frame_def)
  ultimately obtain d where "canbox_read_thread_func example_env (map Read_bytes ?cs) canbox_init = Some (False, d)"
      "map note_bytes (nq_head (cb_queue d)) = [example_frame]"
    using canbox_delivers [OF h(1,3,4) _ h(2)] by metis
  then show ?thesis by simp
qed

lemma canbox_valid_stale: "canbox_valid f \<Longrightarrow> f \<noteq> [] \<Longrightarrow> canbox_valid (butlast f @ [x]) \<longleftrightarrow> x = last f"
  by (simp add: canbox_valid_def)


lemma cp_check_refused:
  assumes "canbox_cut stale (cp_pending a) = Frame f []" "length f \<le> 256" "\<not> canbox_valid f"
  shows "\<exists>b. cp_check env stale a = Some b \<and> cp_pending b = [] \<and> cp_queue b = cp_queue a \<and> cp_out b = cp_out a @ [[0xF0]]"
  using assms by (auto simp: cp_check.simps [of env stale a] cp_accept_def Let_def cp_ack_def)

lemma cp_check_no_head:
  assumes "CANBOX_PROTOCAL_FRAME_START_BYTE \<notin> set (cp_pending a)"
  shows "\<exists>b. cp_check env stale a = Some b \<and> cp_pending b = [] \<and> cp_queue b = cp_queue a \<and> cp_out b = cp_out a"
proof -
  have "dropWhile (\<lambda>x. x \<noteq> CANBOX_PROTOCAL_FRAME_START_BYTE) (cp_pending a) = []"
    using assms by (auto simp: dropWhile_eq_Nil_conv)
  note nil = this
  have "canbox_cut stale (cp_pending a) = Wait []" unfolding canbox_cut_def nil by simp
  then show ?thesis by (auto simp: cp_check.simps [of env stale a] Let_def)
qed

lemma canbox_check_some:
  assumes "rx_ok c" "0 < tty_buffer_pos c" "tty_buffer_pos c < 528"
    "cp_check env (tty_buffer c ! nat (tty_buffer_pos c)) (canbox_abs c) = Some b"
  obtains d where "canbox_check_full_command env c = Some d" "rx_ok d" "canbox_abs d = b"
  using canbox_check_abs [OF assms(1,3), of env] assms(2,4) by (auto simp: option_rel_Some2)

text \<open>
  C34. A checksum that comes late. If a read ends right before the checksum of a frame, the code
  takes the byte that lies in the buffer for it; here a byte 0, so a frame with another checksum is
  refused by \<open>F0\<close> and lost although every byte of it was correct.
\<close>

theorem canbox_late_checksum:
  assumes "canbox_frame f" "4 < length f" "length f \<le> 64" "last f \<noteq> 0" "last f \<noteq> 0x2E"
  shows "\<exists>d. canbox_read_thread_func env [Read_bytes (butlast f), Read_bytes [last f]] canbox_init = Some (False, d) \<and>
    nq_head (cb_queue d) = [] \<and> cb_out d = [[0xF0]] \<and> rx_pending d = []"
proof -
  have f: "length f = unat (f ! 2) + 4" "f ! 0 = CANBOX_PROTOCAL_FRAME_START_BYTE" "canbox_valid f" "f \<noteq> []"
    using assms(1) by (auto simp: canbox_frame_def)
  let ?c = "canbox_holding (butlast f)"
  have c: "rx_ok ?c" "tty_buffer_pos ?c = int (length f - 1)" "rx_pending ?c = butlast f"
    "tty_buffer ?c ! nat (tty_buffer_pos ?c) = 0" "rx_fill (butlast f) canbox_init = Some ?c"
    using canbox_holding_ok [of "butlast f"] rx_fill_init [of "butlast f"] assms(3)
    by (auto simp: canbox_holding_def nth_append)
  have "canbox_cut 0 (cp_pending (canbox_abs ?c)) = Frame (butlast f @ [0]) []"
    using canbox_cut_early [OF f(1,2) assms(2)] c(3) by (simp add: canbox_abs_def)
  moreover have "\<not> canbox_valid (butlast f @ [0])" using canbox_valid_stale [OF f(3,4)] assms(4) by simp
  ultimately obtain b where b: "cp_check env 0 (canbox_abs ?c) = Some b" "cp_pending b = []"
    "cp_queue b = cp_queue (canbox_abs ?c)" "cp_out b = cp_out (canbox_abs ?c) @ [[0xF0]]"
    using cp_check_refused [of 0 "canbox_abs ?c" _ env] assms(3) by fastforce
  have "0 < tty_buffer_pos ?c" "tty_buffer_pos ?c < 528" using c(2) assms(2,3) by auto
  moreover have "cp_check env (tty_buffer ?c ! nat (tty_buffer_pos ?c)) (canbox_abs ?c) = Some b" unfolding c(4) by (rule b(1))
  ultimately obtain d where d: "canbox_check_full_command env ?c = Some d" "rx_ok d" "canbox_abs d = b"
    by (rule canbox_check_some [OF c(1)])
  have d0: "rx_pending d = []" "nq_head (cb_queue d) = []" "cb_out d = [[0xF0]]"
    using b(2-4) d(3) by (auto simp: canbox_abs_def canbox_holding_def canbox_init_def nq_init_def)
  then have "tty_buffer_pos d = 0" using length_rx_pending [OF d(2)] rx_okD(3) [OF d(2)] by simp
  then obtain u where u: "rx_fill [last f] d = Some u" "rx_ok u" "tty_buffer_pos u = 1" "rx_pending u = [last f]" "rx.more u = rx.more d"
    using rx_fill_ok [OF d(2), of "[last f]"] d0(1) by auto
  have rest: "\<exists>b. cp_check env stale (canbox_abs u) = Some b \<and> cp_pending b = [] \<and>
      cp_queue b = cb_queue d \<and> cp_out b = cb_out d" for stale
  proof -
    have "cp_queue (canbox_abs u) = cb_queue d" "cp_out (canbox_abs u) = cb_out d"
      using u(5) by (cases u, cases d, simp add: canbox_abs_def)+
    moreover have "CANBOX_PROTOCAL_FRAME_START_BYTE \<notin> set (cp_pending (canbox_abs u))"
      using u(4) assms(5) by (simp add: canbox_abs_def CANBOX_PROTOCAL_FRAME_START_BYTE_def)
    ultimately show ?thesis using cp_check_no_head [of "canbox_abs u" env stale] by simp
  qed
  have "0 < tty_buffer_pos u" "tty_buffer_pos u < 528" using u(3) by simp_all
  with rest [of "tty_buffer u ! nat (tty_buffer_pos u)"] obtain v where
    v: "canbox_check_full_command env u = Some v" "cp_pending (canbox_abs v) = []"
      "cp_queue (canbox_abs v) = cb_queue d" "cp_out (canbox_abs v) = cb_out d"
    using canbox_check_some [OF u(2)] by blast
  have "canbox_read_thread_func env [Read_bytes (butlast f), Read_bytes [last f]] canbox_init = Some (False, v)"
    unfolding canbox_read_thread_func_def by (simp only: read_thread.simps c(5) d(1) u(1) v(1) bind.bind_lunit)
  moreover have "nq_head (cb_queue v) = []" "cb_out v = [[0xF0]]" "rx_pending v = []"
    using v(2-4) d0(2,3) by (simp_all add: canbox_abs_def)
  ultimately show ?thesis by blast
qed

theorem canbox_late_checksum_witness:
  "\<exists>d. canbox_read_thread_func example_env [Read_bytes [0x2E, 0x01, 0x01, 0x05], Read_bytes [0xF8]] canbox_init = Some (False, d) \<and>
    nq_head (cb_queue d) = [] \<and> cb_out d = [[0xF0]] \<and> rx_pending d = []"
  using canbox_late_checksum [OF example_frame_ok(1), of example_env] by (simp add: example_frame_def)



text \<open>
  C35. A sender never learns that its command was not acknowledged: \<open>canbox_write\<close> compares
  \<open>errno\<close> with \<open>ETIME\<close>, which \<open>sem_timedwait\<close> never reports, so it sends the command
  exactly once and returns 0 whatever happens.
\<close>

theorem canbox_write_never_retries:
  assumes "canbox_write env buffer len c = Done (r, d)" "0 \<le> len"
  shows "r = 0 \<and> cb_out d = cb_out c @ [take (nat len) buffer]"
  using assms
  by (auto simp: canbox_write_def canbox_write_loop.simps [of env buffer len 0 _ 0] Let_def
      split: outcome.splits if_splits sum.splits option.splits dest!: sem_timedwait_not_ETIME)

text \<open>A command whose acknowledgement does not come within 100 milliseconds.\<close>

theorem canbox_write_never_retries_witness:
  "let env = (\<lambda>_. \<lparr>cw_clock = Inr (4, 0), cw_rounds = [\<lparr>tw_now = (4, 100000001), tw_futex = 0, tw_wake = 0\<rparr>]\<rparr>)
   in \<exists>d. canbox_write env example_frame 5 canbox_init = Done (0, d) \<and> cb_out d = [example_frame]"
proof -
  define env :: "nat \<Rightarrow> cw_attempt" where
    "env = (\<lambda>_. \<lparr>cw_clock = Inr (4, 0), cw_rounds = [\<lparr>tw_now = (4, 100000001), tw_futex = 0, tw_wake = 0\<rparr>]\<rparr>)"
  have t: "sem_trydec 0 = (0, 0)"
    by (simp add: sem_trydec_def SEMCOUNT_TO_VALUE_def Let_def)
  then have drain: "canbox_drain 0 0 = 0" by (simp add: canbox_drain.simps trywait_eq)
  obtain s e n w out where "canbox_write_loop env example_frame 5 0 (Some EAGAIN) 0 0 [] = Done (s, e, n, w, out)"
    using example_frame_ok(2) t
    by (simp add: canbox_write_loop.simps env_def sem_timedwait_def time_left_def Let_def)
  moreover have "cb_sem_command canbox_init = 0" "cb_out canbox_init = []"
    by (simp_all add: canbox_init_def SEMCOUNT_FROM_VALUE_def)
  ultimately obtain r d where run: "canbox_write env example_frame 5 canbox_init = Done (r, d)"
    using drain by (simp add: canbox_write_def Let_def)
  from canbox_write_never_retries [OF run] have "r = 0 \<and> cb_out d = [example_frame]"
    using example_frame_ok(2) by (simp add: canbox_init_def)
  with run show ?thesis by (auto simp: env_def [symmetric] Let_def)
qed

end
