(* ===== verification/Mpeg.thy ===== *)
theory Mpeg
  imports Serial
begin

text \<open>
  The protocol of the MPEG decoder, \<^verbatim>\<open>src/hardware/mx5x/libmpeg/mpeg.cpp\<close> and
  \<^verbatim>\<open>mpegprotocal.h\<close>: \<open>parse_command\<close> turns a command into a notification,
  \<open>prepareBuffer\<close> turns a request into a frame. A frame is \<open>4B B4 length command parameters
  checksum\<close>, where the length counts the last three and the bytes from the length to the checksum
  add up to 0.
\<close>

section \<open>Reports\<close>

definition MPEG_PROTOCAL_FRAME_START_BYTE_ONE :: u8 where "MPEG_PROTOCAL_FRAME_START_BYTE_ONE = 0x4B"
definition MPEG_PROTOCAL_FRAME_START_BYTE_TWO :: u8 where "MPEG_PROTOCAL_FRAME_START_BYTE_TWO = 0xB4"

datatype mpeg_report_type =
    MPEG_HOST_IND | MPEG_INIT_CFM | MPEG_DEVICE_STATUS_CFM | MPEG_DEVICE_STATUS_IND | MPEG_KEY_CONTROL_CFM
  | MPEG_KEY_IND | MPEG_TS_POS_IND | MPEG_PLAY_STATUS_RSP | MPEG_PLAY_STATUS_IND | MPEG_PLAY_INFO_RSP
  | MPEG_PLAY_INFO_IND | MPEG_ID3_INFO_RSP | MPEG_ID3_INFO_IND | MPEG_PLAYLIST_INDEX_RSP
  | MPEG_PLAYLIST_INDEX_INFO | MPEG_PLAYLIST_NAME_RSP | MPEG_DVD_DISP_INFO_IND | MPEG_DVD_DISP_INFO_RSP
  | MPEG_SOURCE_CFM | MPEG_SET_SUSPEND_CFM | MPEG_POWER_OFF_CFM | MPEG_GET_BOOKMARK | MPEG_COMM_STATUS
  | MPEG_UPGRADE_START | MPEG_UPGRADE_END | MPEG_DIVX_CODE_CFM | MPEG_DIVX_CODE_IND | MPEG_DBG_MSG
  | MPEG_DISC_STATUS

text \<open>The enumerator with a number, if there is one.\<close>

definition mpeg_report_types :: "(u8 \<times> mpeg_report_type) list" where
  "mpeg_report_types =
    [(0x80, MPEG_HOST_IND), (0x81, MPEG_INIT_CFM), (0x82, MPEG_DEVICE_STATUS_CFM), (0x84, MPEG_DEVICE_STATUS_IND),
     (0x85, MPEG_KEY_CONTROL_CFM), (0x86, MPEG_KEY_IND), (0x88, MPEG_TS_POS_IND), (0x89, MPEG_PLAY_STATUS_RSP),
     (0x8A, MPEG_PLAY_STATUS_IND), (0x8B, MPEG_PLAY_INFO_RSP), (0x8C, MPEG_PLAY_INFO_IND), (0x8D, MPEG_ID3_INFO_RSP),
     (0x8E, MPEG_ID3_INFO_IND), (0x8F, MPEG_PLAYLIST_INDEX_RSP), (0x90, MPEG_PLAYLIST_INDEX_INFO),
     (0x91, MPEG_PLAYLIST_NAME_RSP), (0x92, MPEG_DVD_DISP_INFO_IND), (0x93, MPEG_DVD_DISP_INFO_RSP),
     (0x95, MPEG_SOURCE_CFM), (0x96, MPEG_SET_SUSPEND_CFM), (0x97, MPEG_POWER_OFF_CFM), (0x98, MPEG_GET_BOOKMARK),
     (0x9F, MPEG_COMM_STATUS), (0xA0, MPEG_UPGRADE_START), (0xA1, MPEG_UPGRADE_END), (0xA3, MPEG_DIVX_CODE_CFM),
     (0xA4, MPEG_DIVX_CODE_IND), (0xF0, MPEG_DBG_MSG), (0xE0, MPEG_DISC_STATUS)]"

record mpeg_playlist_name_cfm_report =
  pn_file_num :: int
  pn_file_msg :: bytes

record mpeg_playlist_index_report =
  px_isSucc :: int
  px_all_file_count :: int
  px_all_folder_count :: int
  px_all_audio_folder_count :: int
  px_all_video_folder_count :: int
  px_all_photo_folder_count :: int
  px_all_audio_file_count :: int
  px_all_video_file_count :: int
  px_all_photo_file_count :: int

record mpeg_play_info_report =
  pi_file_type :: int
  pi_curr_index :: int
  pi_all_index :: int
  pi_curr_playtime :: int
  pi_all_playtime :: int
  pi_curr_folder_index :: int
  pi_all_folder_count :: int
  pi_all_file_count :: int

record mpeg_play_status_report =
  ps_disc_type :: int
  ps_play_status :: int
  ps_repeat_mode :: int
  ps_shuffle_mode :: int
  ps_scan_mode :: int
  ps_play_type :: int

record mpeg_device_status_report =
  ds_disc_status :: int
  ds_spindle_status :: int
  ds_video_mode :: int
  ds_file_status :: int
  ds_root_menu_status :: int

record mpeg_dvd_disp_info_report =
  dd_audio_num :: int
  dd_audio_index :: int
  dd_audio_coding_type :: int
  dd_audio_channel_num :: int
  dd_audio_iso693_val :: int
  dd_subtitle_iso693_val :: int
  dd_subtitle_all_num :: int
  dd_subtitle_curr_index :: int

record mpeg_power_off_cfm =
  po_command_result :: int
  po_data :: bytes

text \<open>
  The union \<open>mpeg_report_context\<close>: the member that was written last. \<open>No_report\<close> is a
  context in which no member was written: it holds what the stack held.
\<close>

datatype mpeg_report_context =
    No_report
  | init_cfm_report int
  | device_status_report mpeg_device_status_report
  | play_status_report mpeg_play_status_report
  | play_info_report mpeg_play_info_report
  | play_index_report mpeg_playlist_index_report
  | play_name_cfm_report mpeg_playlist_name_cfm_report
  | key_control_cfm int
  | set_mpeg_source_cfm_report u8
  | dvd_disp_info_report mpeg_dvd_disp_info_report
  | id3_info_report bytes
  | set_suspend_report int
  | power_off_cfm mpeg_power_off_cfm

record mpeg_notification =
  the_report_type :: u8
  the_report_context :: mpeg_report_context

section \<open>State\<close>

record mpeg_state = rx +
  mp_queue :: "mpeg_notification nqueue"
  mp_calls :: nat

type_synonym mpeg_ext = "\<lparr>mp_queue :: mpeg_notification nqueue, mp_calls :: nat\<rparr>"

text \<open>Per call of \<open>parse_command\<close>: what the stack held in the context, and the address \<open>malloc\<close> returns.\<close>

record mpeg_env =
  me_stack :: "nat \<Rightarrow> nat \<Rightarrow> u8"
  me_malloc :: "nat \<Rightarrow> nat"

definition mpeg_init :: mpeg_state where
  "mpeg_init = \<lparr>tty_buffer = replicate (MAX_BUFFER_STRING + 16) 0, tmp_buffer = replicate (MAX_BUFFER_STRING + 16) 0,
     tty_buffer_pos = 0, mp_queue = nq_init, mp_calls = 0\<rparr>"

definition push_mpeg_notificaiton :: "mpeg_env \<Rightarrow> nat \<Rightarrow> mpeg_notification \<Rightarrow> mpeg_state \<Rightarrow> mpeg_state option" where
  "push_mpeg_notificaiton env k n c =
     do { (ret, q) \<leftarrow> push_notification (me_malloc env k) n (mp_queue c); Some (c\<lparr>mp_queue := q\<rparr>) }"

definition mpeg_get_notification :: "u32 list \<Rightarrow> mpeg_state \<Rightarrow> (int \<times> mpeg_notification \<times> mpeg_state) outcome" where
  "mpeg_get_notification wakes c =
     (case pop_notification wakes (mp_queue c) of
        Blocked \<Rightarrow> Blocked | Fault \<Rightarrow> Fault | Done (_, n, q) \<Rightarrow> Done (0, n, c\<lparr>mp_queue := q\<rparr>))"

section \<open>Commands received\<close>

definition mpeg_calc_checksum :: "bytes \<Rightarrow> nat \<Rightarrow> nat \<Rightarrow> u8 option" where
  "mpeg_calc_checksum data s len = do { checksum \<leftarrow> sum_bytes data s len 0; Some (NOT checksum + 1) }"

text \<open>A byte as an \<open>int\<close>, and two of them, the high one first.\<close>

definition byte_at :: "bytes \<Rightarrow> nat \<Rightarrow> int option" where
  "byte_at command i = do { b \<leftarrow> rd command i; Some (uint b) }"

definition word_at :: "bytes \<Rightarrow> nat \<Rightarrow> int option" where
  "word_at command i = do { h \<leftarrow> rd command i; l \<leftarrow> rd command (i + 1); Some (push_bit 8 (uint h) OR uint l) }"

definition mpeg_device_status :: "bytes \<Rightarrow> mpeg_report_context option" where
  "mpeg_device_status command = do {
     b \<leftarrow> byte_at command 2;
     Some (device_status_report \<lparr>ds_disc_status = b AND 0x03, ds_spindle_status = drop_bit 2 (b AND 0x04),
       ds_video_mode = drop_bit 3 (b AND 0x08), ds_file_status = drop_bit 4 (b AND 0x10),
       ds_root_menu_status = (if b AND 0x60 \<noteq> 0 then 1 else 0)\<rparr>) }"

definition mpeg_play_status :: "bytes \<Rightarrow> mpeg_report_context option" where
  "mpeg_play_status command = do {
     t \<leftarrow> byte_at command 2; s \<leftarrow> byte_at command 3; m \<leftarrow> byte_at command 4;
     Some (play_status_report \<lparr>ps_disc_type = t, ps_play_status = s, ps_repeat_mode = m AND 0x07,
       ps_shuffle_mode = drop_bit 3 (m AND 0x08), ps_scan_mode = drop_bit 4 (m AND 0x10),
       ps_play_type = drop_bit 7 (m AND 0x80)\<rparr>) }"

definition mpeg_play_info :: "bytes \<Rightarrow> mpeg_report_context option" where
  "mpeg_play_info command = do {
     t \<leftarrow> byte_at command 2;
     ci \<leftarrow> word_at command 3; ai \<leftarrow> word_at command 5; ct \<leftarrow> word_at command 7; at \<leftarrow> word_at command 9;
     cf \<leftarrow> word_at command 11; af \<leftarrow> word_at command 13; n \<leftarrow> word_at command 15;
     Some (play_info_report \<lparr>pi_file_type = t, pi_curr_index = ci, pi_all_index = ai, pi_curr_playtime = ct,
       pi_all_playtime = at, pi_curr_folder_index = cf, pi_all_folder_count = af, pi_all_file_count = n\<rparr>) }"

definition mpeg_playlist_index :: "bytes \<Rightarrow> mpeg_report_context option" where
  "mpeg_playlist_index command = do {
     s \<leftarrow> byte_at command 2;
     fo \<leftarrow> word_at command 3; fi \<leftarrow> word_at command 5; afo \<leftarrow> word_at command 7; vfo \<leftarrow> word_at command 9;
     pfo \<leftarrow> word_at command 11; afi \<leftarrow> word_at command 13; vfi \<leftarrow> word_at command 15; pfi \<leftarrow> word_at command 17;
     Some (play_index_report \<lparr>px_isSucc = s, px_all_file_count = fi, px_all_folder_count = fo,
       px_all_audio_folder_count = afo, px_all_video_folder_count = vfo, px_all_photo_folder_count = pfo,
       px_all_audio_file_count = afi, px_all_video_file_count = vfi, px_all_photo_file_count = pfi\<rparr>) }"

definition mpeg_playlist_name :: "bytes \<Rightarrow> bytes \<Rightarrow> int \<Rightarrow> mpeg_report_context option" where
  "mpeg_playlist_name stack command len = do {
     n \<leftarrow> byte_at command 2;
     msg \<leftarrow> memset_at stack 0 0 255;
     msg \<leftarrow> memcpy_at msg 0 command 3 len;
     Some (play_name_cfm_report \<lparr>pn_file_num = n, pn_file_msg = msg\<rparr>) }"

definition mpeg_dvd_disp_info :: "bytes \<Rightarrow> mpeg_report_context option" where
  "mpeg_dvd_disp_info command = do {
     n \<leftarrow> byte_at command 2; i \<leftarrow> byte_at command 3; t \<leftarrow> byte_at command 4; ch \<leftarrow> byte_at command 5;
     a \<leftarrow> word_at command 6; s \<leftarrow> word_at command 8; sn \<leftarrow> byte_at command 10; si \<leftarrow> byte_at command 11;
     Some (dvd_disp_info_report \<lparr>dd_audio_num = n, dd_audio_index = i, dd_audio_coding_type = t, dd_audio_channel_num = ch,
       dd_audio_iso693_val = a, dd_subtitle_iso693_val = s, dd_subtitle_all_num = sn, dd_subtitle_curr_index = si\<rparr>) }"

definition mpeg_id3_info :: "bytes \<Rightarrow> bytes \<Rightarrow> int \<Rightarrow> mpeg_report_context option" where
  "mpeg_id3_info stack command len = do {
     info \<leftarrow> memset_at stack 0 0 255;
     info \<leftarrow> memcpy_at info 0 command 2 (len - 2);
     Some (id3_info_report info) }"

text \<open>The debug message is only logged. A length below 2 wraps around, and with it the first index.\<close>

fun mpeg_dbg_loop :: "bytes \<Rightarrow> bytes \<Rightarrow> nat \<Rightarrow> bytes option" where
  "mpeg_dbg_loop msg command 0 = Some msg"
| "mpeg_dbg_loop msg command (Suc len) =
     do { b \<leftarrow> rd command (2 + len); msg \<leftarrow> wr msg len b; mpeg_dbg_loop msg command len }"

definition mpeg_dbg_msg :: "bytes \<Rightarrow> bytes \<Rightarrow> int \<Rightarrow> bytes option" where
  "mpeg_dbg_msg stack command len =
     (if len - 2 < 0 then None
      else do { msg \<leftarrow> wr stack (nat (len - 2)) 0; mpeg_dbg_loop msg command (nat (len - 2)) })"

fun mpeg_power_data :: "bytes \<Rightarrow> nat \<Rightarrow> bytes option" where
  "mpeg_power_data command 0 = Some []"
| "mpeg_power_data command (Suc n) =
     do { bs \<leftarrow> mpeg_power_data command n; b \<leftarrow> rd command (3 + n); Some (bs @ [b]) }"

text \<open>
  The switch of \<open>parse_command\<close>: the context it leaves in \<open>my_notification\<close>, or
  \<^term>\<open>None\<close> inside \<^term>\<open>Some\<close> where it returns from the function.
\<close>

definition mpeg_switch :: "mpeg_env \<Rightarrow> nat \<Rightarrow> bytes \<Rightarrow> int \<Rightarrow> u8 \<Rightarrow> mpeg_report_context option option" where
  "mpeg_switch env k command len command_id =
     (let stack = map (me_stack env k) [0..<256] in
      case map_of mpeg_report_types command_id of
        Some MPEG_HOST_IND \<Rightarrow> Some (Some No_report)
      | Some MPEG_INIT_CFM \<Rightarrow> do { v \<leftarrow> byte_at command 2; Some (Some (init_cfm_report v)) }
      | Some MPEG_DEVICE_STATUS_CFM \<Rightarrow> do { r \<leftarrow> mpeg_device_status command; Some (Some r) }
      | Some MPEG_DEVICE_STATUS_IND \<Rightarrow> do { r \<leftarrow> mpeg_device_status command; Some (Some r) }
      | Some MPEG_PLAY_STATUS_RSP \<Rightarrow> do { r \<leftarrow> mpeg_play_status command; Some (Some r) }
      | Some MPEG_PLAY_STATUS_IND \<Rightarrow> do { r \<leftarrow> mpeg_play_status command; Some (Some r) }
      | Some MPEG_PLAY_INFO_RSP \<Rightarrow> do { r \<leftarrow> mpeg_play_info command; Some (Some r) }
      | Some MPEG_PLAY_INFO_IND \<Rightarrow> do { r \<leftarrow> mpeg_play_info command; Some (Some r) }
      | Some MPEG_PLAYLIST_INDEX_RSP \<Rightarrow> do { r \<leftarrow> mpeg_playlist_index command; Some (Some r) }
      | Some MPEG_PLAYLIST_INDEX_INFO \<Rightarrow> Some None
      | Some MPEG_PLAYLIST_NAME_RSP \<Rightarrow> do { r \<leftarrow> mpeg_playlist_name stack command len; Some (Some r) }
      | Some MPEG_KEY_CONTROL_CFM \<Rightarrow> do { v \<leftarrow> byte_at command 2; Some (Some (key_control_cfm v)) }
      | Some MPEG_DBG_MSG \<Rightarrow> do { msg \<leftarrow> mpeg_dbg_msg stack command len; Some None }
      | Some MPEG_SOURCE_CFM \<Rightarrow> do { b \<leftarrow> rd command 2; Some (Some (set_mpeg_source_cfm_report b)) }
      | Some MPEG_DISC_STATUS \<Rightarrow> Some None
      | Some MPEG_DVD_DISP_INFO_RSP \<Rightarrow> do { r \<leftarrow> mpeg_dvd_disp_info command; Some (Some r) }
      | Some MPEG_DVD_DISP_INFO_IND \<Rightarrow> do { r \<leftarrow> mpeg_dvd_disp_info command; Some (Some r) }
      | Some MPEG_ID3_INFO_RSP \<Rightarrow> do { r \<leftarrow> mpeg_id3_info stack command len; Some (Some r) }
      | Some MPEG_ID3_INFO_IND \<Rightarrow> do { r \<leftarrow> mpeg_id3_info stack command len; Some (Some r) }
      | Some MPEG_SET_SUSPEND_CFM \<Rightarrow> do { v \<leftarrow> byte_at command 2; Some (Some (set_suspend_report v)) }
      | Some MPEG_POWER_OFF_CFM \<Rightarrow> do {
          v \<leftarrow> byte_at command 2; bs \<leftarrow> mpeg_power_data command 64;
          Some (Some (power_off_cfm \<lparr>po_command_result = v, po_data = bs\<rparr>)) }
      | Some MPEG_GET_BOOKMARK \<Rightarrow> Some (Some No_report)
      | _ \<Rightarrow> Some None)"

definition parse_command :: "mpeg_env \<Rightarrow> bytes \<Rightarrow> mpeg_state \<Rightarrow> mpeg_state option" where
  "parse_command env command c =
     (let k = mp_calls c; c = c\<lparr>mp_calls := k + 1\<rparr> in
      do {
        lenb \<leftarrow> rd command 0;
        let len = uint lenb;
        checksum \<leftarrow> mpeg_calc_checksum command 0 (nat len);
        given \<leftarrow> rd command (nat len);
        command_id \<leftarrow> rd command 1;
        r \<leftarrow> mpeg_switch env k command len command_id;
        (case r of
           None \<Rightarrow> Some c
         | Some ctx \<Rightarrow> push_mpeg_notificaiton env k \<lparr>the_report_type = command_id, the_report_context = ctx\<rparr> c)
      })"

section \<open>Requests sent\<close>

datatype mpeg_command_type =
    MPEG_INIT_REQ | MPEG_DEVICE_STATUS_REQ | MPU_REPORT_STATUS_REQ | MPEG_KEY_CONTROL_REQ | MPU_REPORT_TS_POS_REQ
  | MPEG_PLAY_STATUS_REQ | MPEG_PLAY_INFO_REQ | MPEG_ID3_INFO_REQ | MPEG_PLAYLIST_INDEX_REQ | MPEG_PLAYLIST_NAME_REQ
  | MPEG_DVD_DISP_INFO_REQ | MPU_SET_MPEG_SOURCE_REQ | MPU_SET_MPEG_SUSPEND_REQ | MPEG_SET_MPEG_POWER_OFF_REQ
  | MPU_RET_BOOTMARK | MPEG_UPGRADE_START_REQ | MPEG_VERSION_REQ | MPEG_DIVX_CODE_REQ | MPEG_COMM_STATUS_REQ
  | MPEG_RESET_REQ

fun mpeg_command_code :: "mpeg_command_type \<Rightarrow> u8" where
  "mpeg_command_code MPEG_INIT_REQ = 0x01"
| "mpeg_command_code MPEG_DEVICE_STATUS_REQ = 0x02"
| "mpeg_command_code MPU_REPORT_STATUS_REQ = 0x03"
| "mpeg_command_code MPEG_KEY_CONTROL_REQ = 0x05"
| "mpeg_command_code MPU_REPORT_TS_POS_REQ = 0x07"
| "mpeg_command_code MPEG_PLAY_STATUS_REQ = 0x09"
| "mpeg_command_code MPEG_PLAY_INFO_REQ = 0x0B"
| "mpeg_command_code MPEG_ID3_INFO_REQ = 0x0D"
| "mpeg_command_code MPEG_PLAYLIST_INDEX_REQ = 0x0F"
| "mpeg_command_code MPEG_PLAYLIST_NAME_REQ = 0x11"
| "mpeg_command_code MPEG_DVD_DISP_INFO_REQ = 0x13"
| "mpeg_command_code MPU_SET_MPEG_SOURCE_REQ = 0x15"
| "mpeg_command_code MPU_SET_MPEG_SUSPEND_REQ = 0x16"
| "mpeg_command_code MPEG_SET_MPEG_POWER_OFF_REQ = 0x17"
| "mpeg_command_code MPU_RET_BOOTMARK = 0x18"
| "mpeg_command_code MPEG_UPGRADE_START_REQ = 0x20"
| "mpeg_command_code MPEG_VERSION_REQ = 0x22"
| "mpeg_command_code MPEG_DIVX_CODE_REQ = 0x23"
| "mpeg_command_code MPEG_COMM_STATUS_REQ = 0x30"
| "mpeg_command_code MPEG_RESET_REQ = 0xFE"

text \<open>
  Every member of the union \<open>mpeg_command_context\<close> is made of bytes, so the context is the 65
  bytes of its largest member, and a member's field the byte at its offset.
\<close>

record mpeg_command =
  the_command_type :: mpeg_command_type
  the_command_context :: bytes

definition mpeg_prepareBuffer :: "bytes \<Rightarrow> mpeg_command \<Rightarrow> (int \<times> bytes) option" where
  "mpeg_prepareBuffer buffer cmd =
     do {
       buffer \<leftarrow> put_bytes buffer 0 [0x4B, 0xB4];
       buffer \<leftarrow> wr buffer 3 (mpeg_command_code (the_command_type cmd));
       let context = the_command_context cmd;
       let with_param = (\<lambda>n. do { b \<leftarrow> wr buffer 2 (of_nat (1 + n + 1)); ps \<leftarrow> (if n \<le> length context then Some (take n context) else None);
          b \<leftarrow> put_bytes b 4 ps; Some (b, 4 + n) });
       (buffer, p) \<leftarrow>
         (case the_command_type cmd of
            MPEG_INIT_REQ \<Rightarrow> with_param 1
          | MPU_SET_MPEG_SOURCE_REQ \<Rightarrow> with_param 1
          | MPU_REPORT_STATUS_REQ \<Rightarrow> with_param 1
          | MPEG_PLAYLIST_INDEX_REQ \<Rightarrow> with_param 0
          | MPEG_DEVICE_STATUS_REQ \<Rightarrow> with_param 0
          | MPEG_KEY_CONTROL_REQ \<Rightarrow> with_param 5
          | MPEG_PLAY_STATUS_REQ \<Rightarrow> with_param 0
          | MPEG_PLAY_INFO_REQ \<Rightarrow> with_param 0
          | MPU_REPORT_TS_POS_REQ \<Rightarrow> with_param 5
          | MPEG_PLAYLIST_NAME_REQ \<Rightarrow> with_param 3
          | MPEG_DVD_DISP_INFO_REQ \<Rightarrow> with_param 0
          | MPEG_ID3_INFO_REQ \<Rightarrow> with_param 0
          | MPU_SET_MPEG_SUSPEND_REQ \<Rightarrow> with_param 1
          | MPEG_SET_MPEG_POWER_OFF_REQ \<Rightarrow> with_param 0
          | MPU_RET_BOOTMARK \<Rightarrow> with_param 65
          | MPEG_RESET_REQ \<Rightarrow> with_param 0
          | _ \<Rightarrow> Some (buffer, 4));
       pLength \<leftarrow> rd buffer 2;
       checksum \<leftarrow> mpeg_calc_checksum buffer 2 (nat (uint pLength - 1 + 1));
       buffer \<leftarrow> wr buffer p checksum;
       Some (uint pLength + 3, buffer)
     }"

text \<open>The bytes given to \<open>write\<close>.\<close>

definition mpeg_send_command :: "mpeg_command \<Rightarrow> bytes option" where
  "mpeg_send_command cmd =
     do {
       (n, command_buffer) \<leftarrow> mpeg_prepareBuffer (replicate 256 0) cmd;
       let len = unat (word_of_int n :: u8);
       if len \<le> length command_buffer then Some (take len command_buffer) else None
     }"

section \<open>Facts\<close>

lemma mpeg_calc_checksum_eq:
  "s + n \<le> length a \<Longrightarrow> mpeg_calc_checksum a s n = Some (- sum_list (take n (drop s a)))"
  by (simp add: mpeg_calc_checksum_def sum_bytes_eq minus_eq_not_plus_1)

lemma byte_at_ok: "i < length a \<Longrightarrow> byte_at a i = Some (uint (a ! i))"
  by (simp add: byte_at_def rd_def)

lemma word_at_ok: "i + 1 < length a \<Longrightarrow> word_at a i = Some (push_bit 8 (uint (a ! i)) OR uint (a ! (i + 1)))"
  by (simp add: word_at_def rd_def)

lemma mpeg_dbg_loop_ok: "n + 2 \<le> length a \<Longrightarrow> n \<le> length msg \<Longrightarrow> \<exists>m. mpeg_dbg_loop msg a n = Some m"
  by (induction msg a n rule: mpeg_dbg_loop.induct) (simp_all add: rd_def wr_def)

lemma mpeg_power_data_ok: "3 + n \<le> length a \<Longrightarrow> mpeg_power_data a n = Some (take n (drop 3 a))"
  by (induction n) (simp_all add: rd_def take_Suc_conv_app_nth)

lemmas command_reads = byte_at_ok word_at_ok mpeg_power_data_ok

text \<open>Which reports are delivered, and which lengths lead outside an object.\<close>

definition mpeg_delivered :: "u8 set" where
  "mpeg_delivered = {0x80, 0x81, 0x82, 0x84, 0x85, 0x89, 0x8A, 0x8B, 0x8C, 0x8D, 0x8E, 0x8F, 0x91, 0x92, 0x93, 0x95, 0x96, 0x97, 0x98}"

definition mpeg_bad_length :: "u8 \<Rightarrow> int \<Rightarrow> bool" where
  "mpeg_bad_length command_id len =
     (command_id \<in> {0x8D, 0x8E, 0xF0} \<and> len < 2 \<or> command_id = 0x91 \<and> len > 253)"

lemma push_mpeg_None: "push_mpeg_notificaiton env k n c = None \<longleftrightarrow> me_malloc env k = 0"
  by (simp add: push_mpeg_notificaiton_def push_notification_def Let_def)

lemma mpeg_playlist_name_None:
  "length a = 256 \<Longrightarrow> length stack = 256 \<Longrightarrow> 0 \<le> len \<Longrightarrow> len < 256 \<Longrightarrow> mpeg_playlist_name stack a len = None \<longleftrightarrow> len > 253"
  by (auto simp: mpeg_playlist_name_def byte_at_ok memset_at_def memcpy_at_def)

lemma mpeg_id3_info_None:
  "length a = 256 \<Longrightarrow> length stack = 256 \<Longrightarrow> len < 256 \<Longrightarrow> mpeg_id3_info stack a len = None \<longleftrightarrow> len < 2"
  by (auto simp: mpeg_id3_info_def memset_at_def memcpy_at_def)

lemma mpeg_dbg_msg_None:
  assumes "length a = 256" "length stack = 256" "len < 256"
  shows "mpeg_dbg_msg stack a len = None \<longleftrightarrow> len < 2"
proof (cases "len < 2")
  case False
  then have "wr stack (nat (len - 2)) 0 = Some (stack[nat (len - 2) := 0])" using assms by (simp add: wr_def)
  moreover have "\<exists>m. mpeg_dbg_loop (stack[nat (len - 2) := 0]) a (nat (len - 2)) = Some m"
    by (rule mpeg_dbg_loop_ok) (use assms False in auto)
  ultimately show ?thesis using False by (auto simp: mpeg_dbg_msg_def)
qed (simp add: mpeg_dbg_msg_def)

lemma mpeg_switch_cases:
  assumes command: "length command = 256" and len: "0 \<le> len" "len < 256"
  shows "mpeg_switch env k command len x = None \<longleftrightarrow> mpeg_bad_length x len"
    and "mpeg_switch env k command len x = Some (Some r) \<Longrightarrow> x \<in> mpeg_delivered"
    and "mpeg_switch env k command len x = Some None \<Longrightarrow> x \<notin> mpeg_delivered"
proof -
  have rd2: "rd command 2 = Some (command ! 2)" using command by (simp add: rd_def)
  note facts = rd2 mpeg_device_status_def mpeg_play_status_def mpeg_play_info_def
    mpeg_playlist_index_def mpeg_dvd_disp_info_def mpeg_playlist_name_None mpeg_id3_info_None mpeg_dbg_msg_None command len
    command_reads bind_eq_None_conv bind_eq_Some_conv
  have "(mpeg_switch env k command len x = None \<longleftrightarrow> mpeg_bad_length x len) \<and>
    (\<forall>r. mpeg_switch env k command len x = Some (Some r) \<longrightarrow> x \<in> mpeg_delivered) \<and>
    (mpeg_switch env k command len x = Some None \<longrightarrow> x \<notin> mpeg_delivered)"
  proof (cases "map_of mpeg_report_types x")
    case None
    then have "x \<notin> mpeg_delivered" "\<not> mpeg_bad_length x len"
      by (auto simp: mpeg_report_types_def mpeg_delivered_def mpeg_bad_length_def)
    with None show ?thesis by (simp add: mpeg_switch_def)
  next
    case (Some t)
    then have id: "(x, t) \<in> set mpeg_report_types" by (rule map_of_SomeD)
    have code: "x \<in> mpeg_delivered \<longleftrightarrow> t \<notin> {MPEG_KEY_IND, MPEG_TS_POS_IND, MPEG_PLAYLIST_INDEX_INFO, MPEG_COMM_STATUS,
        MPEG_UPGRADE_START, MPEG_UPGRADE_END, MPEG_DIVX_CODE_CFM, MPEG_DIVX_CODE_IND, MPEG_DBG_MSG, MPEG_DISC_STATUS}"
      "mpeg_bad_length x len \<longleftrightarrow>
        t \<in> {MPEG_ID3_INFO_RSP, MPEG_ID3_INFO_IND, MPEG_DBG_MSG} \<and> len < 2 \<or> t = MPEG_PLAYLIST_NAME_RSP \<and> len > 253"
      using id by (auto simp: mpeg_report_types_def mpeg_delivered_def mpeg_bad_length_def)
    show ?thesis unfolding code by (cases t) (simp_all add: mpeg_switch_def Some facts)
  qed
  then show "mpeg_switch env k command len x = None \<longleftrightarrow> mpeg_bad_length x len"
    and "mpeg_switch env k command len x = Some (Some r) \<Longrightarrow> x \<in> mpeg_delivered"
    and "mpeg_switch env k command len x = Some None \<Longrightarrow> x \<notin> mpeg_delivered" by blast+
qed

lemma parse_command_eq:
  assumes "length command = 256"
  shows "parse_command env command c =
    (case mpeg_switch env (mp_calls c) command (uint (command ! 0)) (command ! 1) of
       None \<Rightarrow> None
     | Some None \<Rightarrow> Some (c\<lparr>mp_calls := Suc (mp_calls c)\<rparr>)
     | Some (Some ctx) \<Rightarrow> push_mpeg_notificaiton env (mp_calls c)
         \<lparr>the_report_type = command ! 1, the_report_context = ctx\<rparr> (c\<lparr>mp_calls := Suc (mp_calls c)\<rparr>))"
proof -
  have "unat (command ! 0) < 256" using byte_range by blast
  then have "rd command 0 = Some (command ! 0)" "rd command 1 = Some (command ! 1)"
    "\<exists>b. rd command (unat (command ! 0)) = Some b" "\<exists>d. mpeg_calc_checksum command 0 (unat (command ! 0)) = Some d"
    using assms by (simp_all add: rd_def mpeg_calc_checksum_eq)
  then show ?thesis by (auto simp: parse_command_def Let_def split: option.split)
qed

section \<open>Properties of the protocol\<close>

text \<open>
  C29. Exactly when handling a command runs into undefined behaviour, for the 256 bytes
  \<open>check_full_command\<close> passes: a tag or debug report of fewer than two bytes, whose size wraps
  around; a name report of more than 253 bytes, which is read past the end of the command; or a
  delivered report for which \<open>malloc\<close> returns null.
\<close>

theorem mpeg_parse_fault_iff:
  assumes "length command = 256"
  shows "parse_command env command c = None \<longleftrightarrow>
    mpeg_bad_length (command ! 1) (uint (command ! 0)) \<or>
    command ! 1 \<in> mpeg_delivered \<and> me_malloc env (mp_calls c) = 0"
  using mpeg_switch_cases [OF assms uint_ge_0 byte_range(1), of env "mp_calls c" "command ! 0" "command ! 1"]
  by (auto simp: parse_command_eq [OF assms] push_mpeg_None split: option.split)

theorem mpeg_parse_fault_iff_witness:
  "parse_command \<lparr>me_stack = \<lambda>_ _. 0, me_malloc = \<lambda>_. 1\<rparr> ([1, 0x8D] @ replicate 254 0) mpeg_init = None"
  by (subst mpeg_parse_fault_iff) (simp_all add: mpeg_bad_length_def)

definition mpeg_params :: "mpeg_command_type \<Rightarrow> nat option" where
  "mpeg_params t =
     (if t \<in> {MPEG_INIT_REQ, MPU_SET_MPEG_SOURCE_REQ, MPU_REPORT_STATUS_REQ, MPU_SET_MPEG_SUSPEND_REQ} then Some 1
      else if t \<in> {MPEG_KEY_CONTROL_REQ, MPU_REPORT_TS_POS_REQ} then Some 5
      else if t = MPEG_PLAYLIST_NAME_REQ then Some 3
      else if t = MPU_RET_BOOTMARK then Some 65
      else if t \<in> {MPEG_UPGRADE_START_REQ, MPEG_VERSION_REQ, MPEG_DIVX_CODE_REQ, MPEG_COMM_STATUS_REQ} then None
      else Some 0)"

definition mpeg_frame_of :: "u8 \<Rightarrow> bytes \<Rightarrow> bytes" where
  "mpeg_frame_of code ps = (let body = of_nat (length ps + 2) # code # ps in [0x4B, 0xB4] @ body @ [- sum_list body])"

text \<open>The writes of a case with \<open>n\<close> parameters, then the checksum and the result.\<close>

abbreviation mpeg_filled :: "u8 \<Rightarrow> bytes \<Rightarrow> bytes" where
  "mpeg_filled code ps \<equiv> [0x4B, 0xB4, of_nat (1 + length ps + 1), code] @ ps @ replicate (252 - length ps) 0"

lemma mpeg_write_params:
  assumes "n \<le> length ctx" "n \<le> 65"
  shows "do {
      b \<leftarrow> wr ([0x4B, 0xB4, 0, code] @ replicate 252 0) 2 (of_nat (1 + n + 1));
      ps \<leftarrow> (if n \<le> length ctx then Some (take n ctx) else None);
      b \<leftarrow> put_bytes b 4 ps;
      Some (b, 4 + n) } = Some (mpeg_filled code (take n ctx), 4 + n)"
proof -
  let ?h = "[0x4B, 0xB4, of_nat (1 + n + 1), code] :: bytes"
  have w1: "wr ([0x4B, 0xB4, 0, code] @ replicate 252 0) 2 (of_nat (1 + n + 1)) = Some (?h @ replicate 252 0)" by (simp add: wr_def)
  have w2: "put_bytes (?h @ replicate 252 0) 4 (take n ctx) = Some (?h @ take n ctx @ replicate (252 - n) 0)"
    using assms by (subst put_bytes_eq) (simp_all add: drop_Cons')
  show ?thesis unfolding w1 bind.bind_lunit using assms(1) by (simp only: if_True bind.bind_lunit w2) (simp add: assms)
qed

lemma mpeg_finish:
  assumes "length ps \<le> 65"
  shows "do {
      pLength \<leftarrow> rd (mpeg_filled code ps) 2;
      checksum \<leftarrow> mpeg_calc_checksum (mpeg_filled code ps) 2 (nat (uint pLength - 1 + 1));
      b \<leftarrow> wr (mpeg_filled code ps) (4 + length ps) checksum;
      Some (uint pLength + 3, b) } = Some (int (length ps) + 5, mpeg_frame_of code ps @ replicate (251 - length ps) 0)"
proof -
  let ?l = "of_nat (1 + length ps + 1) :: u8"
  have l: "uint ?l = int (length ps) + 2"
    using assms by (simp add: unsigned_of_nat take_bit_nat_eq_self del: of_nat_add of_nat_Suc)
  have r: "rd (mpeg_filled code ps) 2 = Some ?l" by (simp add: rd_def)
  have s: "nat (uint ?l - 1 + 1) = length ps + 2" unfolding l by simp
  have c: "mpeg_calc_checksum (mpeg_filled code ps) 2 (length ps + 2) = Some (- sum_list (?l # code # ps))"
    using assms by (subst mpeg_calc_checksum_eq) simp_all
  have w: "wr (mpeg_filled code ps) (4 + length ps) x = Some ([0x4B, 0xB4, ?l, code] @ ps @ [x] @ replicate (251 - length ps) 0)" for x
  proof -
    have "252 - length ps = Suc (251 - length ps)" using assms by simp
    then show ?thesis using assms by (simp add: wr_def list_update_append)
  qed
  show ?thesis unfolding r bind.bind_lunit s unfolding c w bind.bind_lunit l by (simp add: mpeg_frame_of_def Let_def)
qed

lemma mpeg_prepareBuffer_eq:
  assumes "length (the_command_context cmd) = 65"
  shows "mpeg_prepareBuffer (replicate 256 0) cmd =
    (case mpeg_params (the_command_type cmd) of
       None \<Rightarrow> Some (3, [0x4B, 0xB4, 0, mpeg_command_code (the_command_type cmd), 0] @ replicate 251 0)
     | Some n \<Rightarrow> Some (int n + 5, mpeg_frame_of (mpeg_command_code (the_command_type cmd)) (take n (the_command_context cmd)) @ replicate (251 - n) 0))"
proof -
  let ?ctx = "the_command_context cmd"
  have r: "replicate 256 (0::u8) = [0, 0, 0, 0] @ replicate 252 0"
    by (simp flip: replicate_Suc add: numeral_eq_Suc)
  have h1: "put_bytes (replicate 256 0) 0 [0x4B, 0xB4] = Some ([0x4B, 0xB4, 0, 0] @ replicate 252 0)"
    unfolding r by (simp add: wr_def)
  have h2: "wr ([0x4B, 0xB4, 0, 0] @ replicate 252 0) 3 code = Some ([0x4B, 0xB4, 0, code] @ replicate 252 0)" for code
    by (simp add: wr_def numeral_3_eq_3)
  have z: "mpeg_calc_checksum ([0x4B, 0xB4, 0, code] @ replicate 252 0) 2 (nat (uint (0::u8) - 1 + 1)) = Some 0"
    "rd ([0x4B, 0xB4, 0, code] @ replicate 252 0) 2 = Some 0"
    "wr ([0x4B, 0xB4, 0, code] @ replicate 252 0) 4 0 = Some ([0x4B, 0xB4, 0, code, 0] @ replicate 251 0)" for code
    by (simp_all add: mpeg_calc_checksum_eq rd_def wr_def) (simp add: numeral_eq_Suc)
  have both: "do {
      (b, p) \<leftarrow> do {
        b \<leftarrow> wr ([0x4B, 0xB4, 0, code] @ replicate 252 0) 2 (of_nat (1 + n + 1));
        ps \<leftarrow> (if n \<le> length ?ctx then Some (take n ?ctx) else None);
        b \<leftarrow> put_bytes b 4 ps;
        Some (b, 4 + n) };
      pLength \<leftarrow> rd b 2;
      checksum \<leftarrow> mpeg_calc_checksum b 2 (nat (uint pLength - 1 + 1));
      b \<leftarrow> wr b p checksum;
      Some (uint pLength + 3, b) } = Some (int n + 5, mpeg_frame_of code (take n ?ctx) @ replicate (251 - n) 0)"
    if "n \<le> 65" for n code
    using mpeg_finish [of "take n ?ctx" code] mpeg_write_params [of n ?ctx code] that assms
    by (simp only: bind.bind_lunit prod.case length_take min.absorb2)
  show ?thesis
    unfolding mpeg_prepareBuffer_def h1 bind.bind_lunit h2 Let_def
    by (cases "the_command_type cmd"; simp only: mpeg_command_type.case bind.bind_lunit prod.case z; (subst both, simp)?;
      simp add: mpeg_params_def)
qed

lemma mpeg_frame_of_sum: "sum_list (drop 2 (mpeg_frame_of code ps)) = 0" "length (mpeg_frame_of code ps) = length ps + 5"
  by (simp_all add: mpeg_frame_of_def Let_def)

text \<open>
  C25. What \<open>mpeg_send_command\<close> writes to the port. For a request with \<open>n\<close> parameters it is
  the frame of the protocol: the head, a length that counts the bytes after it, the command, the
  parameters, and a checksum that makes the bytes from the length on add up to 0. The four request
  types \<open>prepareBuffer\<close> does not know leave the head with length 0.
\<close>

theorem mpeg_send_well_formed:
  assumes "length (the_command_context cmd) = 65"
  shows "case mpeg_params (the_command_type cmd) of
      None \<Rightarrow> mpeg_send_command cmd = Some [0x4B, 0xB4, 0]
    | Some n \<Rightarrow> \<exists>f. mpeg_send_command cmd = Some f \<and>
        f = [0x4B, 0xB4, of_nat (length f - 3), mpeg_command_code (the_command_type cmd)] @ take n (the_command_context cmd) @ [last f] \<and>
        sum_list (drop 2 f) = 0"
proof (cases "mpeg_params (the_command_type cmd)")
  case None
  then show ?thesis by (simp add: mpeg_send_command_def mpeg_prepareBuffer_eq [OF assms])
next
  case (Some n)
  let ?f = "mpeg_frame_of (mpeg_command_code (the_command_type cmd)) (take n (the_command_context cmd))"
  have n: "n \<le> 65" using Some by (auto simp: mpeg_params_def split: if_splits)
  have "unat (of_nat (n + 5) :: u8) = n + 5"
    using n by (simp add: unsigned_of_nat take_bit_nat_eq_self del: of_nat_add)
  then have "unat (word_of_int (int n + 5) :: u8) = n + 5" by simp
  moreover have "length ?f = n + 5" using n assms by (simp add: mpeg_frame_of_sum)
  ultimately have "mpeg_send_command cmd = Some ?f"
    using Some n by (simp add: mpeg_send_command_def mpeg_prepareBuffer_eq [OF assms])
  moreover have "?f = [0x4B, 0xB4, of_nat (length ?f - 3), mpeg_command_code (the_command_type cmd)] @ take n (the_command_context cmd) @ [last ?f]"
    using n assms by (simp add: mpeg_frame_of_def Let_def)
  ultimately show ?thesis using Some mpeg_frame_of_sum(1) by auto
qed

theorem mpeg_send_well_formed_witness:
  "\<exists>f. mpeg_send_command \<lparr>the_command_type = MPEG_PLAYLIST_NAME_REQ, the_command_context = [1, 0, 7] @ replicate 62 0\<rparr> = Some f \<and>
    take 7 f = [0x4B, 0xB4, 5, 0x11, 1, 0, 7] \<and> length f = 8 \<and> sum_list (drop 2 f) = 0"
proof -
  let ?cmd = "\<lparr>the_command_type = MPEG_PLAYLIST_NAME_REQ, the_command_context = [1, 0, 7] @ replicate 62 0\<rparr>"
  have p: "mpeg_params MPEG_PLAYLIST_NAME_REQ = Some 3" by (simp add: mpeg_params_def)
  from mpeg_send_well_formed [of ?cmd] obtain f where f: "mpeg_send_command ?cmd = Some f" "sum_list (drop 2 f) = 0"
    "f = [0x4B, 0xB4, of_nat (length f - 3), 0x11] @ [1, 0, 7] @ [last f]" by (auto simp: p)
  from arg_cong [OF f(3), of length] have l: "length f = 8" by simp
  have "take 7 f = take 7 ([0x4B, 0xB4, of_nat (length f - 3), 0x11] @ [1, 0, 7] @ [last f])" using f(3) by (rule arg_cong)
  then have "take 7 f = [0x4B, 0xB4, 5, 0x11, 1, 0, 7]" by (simp add: l)
  then show ?thesis using f(1,2) l by blast
qed

text \<open>
  A report with a wrong checksum is delivered like any other: the mismatch is only logged. For
  every version byte \<open>v\<close> and every checksum byte \<open>x\<close> the notification is the same.
\<close>

lemma mpeg_checksum_ignored:
  assumes "me_malloc env (mp_calls c) \<noteq> 0"
  shows "\<exists>d. parse_command env ([3, 0x81, v, x] @ replicate 252 0) c = Some d \<and>
    nq_head (mp_queue d) = nq_head (mp_queue c) @ [\<lparr>the_report_type = 0x81, the_report_context = init_cfm_report (uint v)\<rparr>]"
  using assms
  by (simp add: parse_command_eq mpeg_switch_def byte_at_def rd_def mpeg_report_types_def
      push_mpeg_notificaiton_def push_notification_def)

lemma mpeg_checksum_ignored_example:
  "\<exists>d. parse_command \<lparr>me_stack = \<lambda>_ _. 0, me_malloc = \<lambda>_. 1\<rparr> ([3, 0x81, 9, 0] @ replicate 252 0) mpeg_init = Some d \<and>
    nq_head (mp_queue d) = [\<lparr>the_report_type = 0x81, the_report_context = init_cfm_report 9\<rparr>]"
  using mpeg_checksum_ignored [of "\<lparr>me_stack = \<lambda>_ _. 0, me_malloc = \<lambda>_. 1\<rparr>" mpeg_init 9 0]
  by (simp add: mpeg_init_def nq_init_def)

end
