(* ===== verification/Framed_Reader.thy ===== *)
theory Framed_Reader
  imports Serial
begin

text \<open>
  \<open>check_full_command\<close> of the MPEG and of the iPod driver. The two functions are the same text
  but for the two head bytes, the test made on the length byte before anything else (\<open>stuck\<close>)
  and whether the length counts the checksum (\<open>extra\<close>, the number of bytes it does not count),
  so they are translated once with these as parameters; \<open>parse\<close> is the driver's
  \<open>parse_command\<close>. Unlike the CAN box driver they move the search on when a first head byte is
  not followed by the second, and never move it back, also not when the bytes after a frame have been
  moved to the front of the buffer.
  The locale \<open>framed_reader\<close> states what is needed of \<open>parse_command\<close>, that it does not
  touch the buffers, and proves that the code cuts the received bytes as \<open>framed_cut\<close> does.
\<close>

section \<open>The code\<close>

text \<open>A whole command: it is copied out and parsed, and the bytes after it are moved to the front.\<close>

definition framed_take :: "nat \<Rightarrow> (bytes \<Rightarrow> 'a rx_scheme \<Rightarrow> 'a rx_scheme option) \<Rightarrow> nat \<Rightarrow> int \<Rightarrow> int \<Rightarrow> nat \<Rightarrow> int \<Rightarrow>
    'a rx_scheme \<Rightarrow> ('a rx_scheme, nat \<times> int \<times> 'a rx_scheme) turn option" where
  "framed_take extra parse h len left_bytes p_start search_byte c =
     do {
       command \<leftarrow> memset_at (replicate 256 0) 0 0 256;
       command \<leftarrow> memcpy_at command 0 (tty_buffer c) (h + 2) (len + 1 + int extra);
       c \<leftarrow> parse command c;
       b \<leftarrow> memset_at (tty_buffer c) 0 0 (int h + 2 + 1 + len);
       t \<leftarrow> memcpy_at (tmp_buffer c) 0 b (h + 2 + nat len + 1) (left_bytes - len);
       b \<leftarrow> memcpy_at b 0 t 0 (left_bytes - len);
       t \<leftarrow> memset_at t 0 0 (512 + 16);
       let c = c\<lparr>tmp_buffer := t, tty_buffer_pos := left_bytes - len\<rparr>;
       if tty_buffer_pos c \<le> 0 then do {
         b \<leftarrow> memset_at b 0 0 (int MAX_BUFFER_STRING + 16);
         Some (Return (c\<lparr>tty_buffer := b\<rparr>)) }
       else do {
         b \<leftarrow> memset_at b (nat (tty_buffer_pos c)) 0 (int MAX_BUFFER_STRING + 16 - tty_buffer_pos c);
         Some (Continue (p_start, search_byte, c\<lparr>tty_buffer := b\<rparr>)) }
     }"

text \<open>The rest of a turn once \<open>p_head\<close> is found, at index \<open>h\<close>.\<close>

definition framed_at_head :: "u8 \<Rightarrow> u8 \<Rightarrow> (int \<Rightarrow> bool) \<Rightarrow> nat \<Rightarrow> (bytes \<Rightarrow> 'a rx_scheme \<Rightarrow> 'a rx_scheme option) \<Rightarrow> nat \<Rightarrow> nat \<Rightarrow> int \<Rightarrow>
    'a rx_scheme \<Rightarrow> ('a rx_scheme, nat \<times> int \<times> 'a rx_scheme) turn option" where
  "framed_at_head one two stuck extra parse h p_start search_byte c =
     (if int h + 1 = tty_buffer_pos c then do {
        b \<leftarrow> memcpy_at (tty_buffer c) 0 (tty_buffer c) h 1;
        Some (Return (c\<lparr>tty_buffer := b, tty_buffer_pos := 1\<rparr>)) }
      else do {
        first \<leftarrow> rd (tty_buffer c) h;
        second \<leftarrow> rd (tty_buffer c) (h + 1);
        if first = one \<and> second = two then
          (if int h + 2 = tty_buffer_pos c then do {
             b \<leftarrow> memcpy_at (tty_buffer c) 0 (tty_buffer c) h 2;
             Some (Return (c\<lparr>tty_buffer := b, tty_buffer_pos := 2\<rparr>)) }
           else if int h + 3 = tty_buffer_pos c then do {
             b \<leftarrow> memcpy_at (tty_buffer c) 0 (tty_buffer c) h 3;
             Some (Return (c\<lparr>tty_buffer := b, tty_buffer_pos := 3\<rparr>)) }
           else do {
             lenb \<leftarrow> rd (tty_buffer c) (h + 2);
             let len = uint lenb;
             if stuck len then Some (Return c)
             else
               let left_bytes = tty_buffer_pos c - (int h + 2 + 1) in
               if len + int extra > left_bytes then do {
                 t \<leftarrow> memcpy_at (tmp_buffer c) 0 (tty_buffer c) h (left_bytes + 3);
                 b \<leftarrow> memcpy_at (tty_buffer c) 0 t 0 (left_bytes + 3);
                 t \<leftarrow> memset_at t 0 0 (512 + 16);
                 Some (Return (c\<lparr>tty_buffer := b, tmp_buffer := t, tty_buffer_pos := left_bytes + 3\<rparr>)) }
               else framed_take extra parse h len left_bytes p_start search_byte c })
        else Some (Continue (h + 1, tty_buffer_pos c - (int h + 1), c)) })"

definition framed_turn :: "u8 \<Rightarrow> u8 \<Rightarrow> (int \<Rightarrow> bool) \<Rightarrow> nat \<Rightarrow> (bytes \<Rightarrow> 'a rx_scheme \<Rightarrow> 'a rx_scheme option) \<Rightarrow> nat \<Rightarrow> int \<Rightarrow>
    'a rx_scheme \<Rightarrow> ('a rx_scheme, nat \<times> int \<times> 'a rx_scheme) turn option" where
  "framed_turn one two stuck extra parse p_start search_byte c =
     do {
       p_head \<leftarrow> memchr_at (tty_buffer c) p_start one search_byte;
       (case p_head of
          None \<Rightarrow> Some (Return (c\<lparr>tty_buffer_pos := 0\<rparr>))
        | Some h \<Rightarrow> framed_at_head one two stuck extra parse h p_start search_byte c)
     }"

lemma framed_take_continue:
  assumes "framed_take extra parse h len left_bytes p s c = Some (Continue (p', s', d))"
  shows "tty_buffer_pos d = left_bytes - len \<and> 0 < tty_buffer_pos d"
  using assms by (auto simp: framed_take_def Let_def bind_eq_Some_conv split: if_splits)

lemma framed_at_head_continue:
  assumes "framed_at_head one two stuck extra parse h p s c = Some (Continue (p', s', d))"
  shows "nat (tty_buffer_pos d) < nat (tty_buffer_pos c) \<or> d = c \<and> p' = h + 1 \<and> h < length (tty_buffer c)"
proof -
  from assms consider (skip) "d = c \<and> p' = h + 1 \<and> h < length (tty_buffer c)"
    | (take) l :: u8 where "framed_take extra parse h (uint l) (tty_buffer_pos c - (3 + int h)) p s c = Some (Continue (p', s', d))"
    by (auto simp: framed_at_head_def Let_def bind_eq_Some_conv rd_def split: if_splits)
  then show ?thesis
  proof cases
    case take
    from framed_take_continue [OF this] uint_ge_0 [of l] show ?thesis by linarith
  qed simp
qed

lemma framed_turn_continue:
  assumes "framed_turn one two stuck extra parse p s c = Some (Continue (p', s', d))"
  shows "nat (tty_buffer_pos d) < nat (tty_buffer_pos c) \<or> d = c \<and> p < p' \<and> p < length (tty_buffer c)"
proof -
  from assms obtain h where h: "memchr_at (tty_buffer c) p one s = Some (Some h)"
    and "framed_at_head one two stuck extra parse h p s c = Some (Continue (p', s', d))"
    by (auto simp: framed_turn_def bind_eq_Some_conv split: option.split_asm)
  moreover from h have "p \<le> h" using memchr_from_found by (auto simp: memchr_at_def split: if_splits)
  ultimately show ?thesis using framed_at_head_continue by fastforce
qed

function framed_loop :: "u8 \<Rightarrow> u8 \<Rightarrow> (int \<Rightarrow> bool) \<Rightarrow> nat \<Rightarrow> (bytes \<Rightarrow> 'a rx_scheme \<Rightarrow> 'a rx_scheme option) \<Rightarrow> nat \<Rightarrow> int \<Rightarrow>
    'a rx_scheme \<Rightarrow> 'a rx_scheme option" where
  "framed_loop one two stuck extra parse p_start search_byte c =
     (case framed_turn one two stuck extra parse p_start search_byte c of
        None \<Rightarrow> None
      | Some (Return d) \<Rightarrow> Some d
      | Some (Continue (p, s, d)) \<Rightarrow> framed_loop one two stuck extra parse p s d)"
  by auto
termination
  by (relation "measures [\<lambda>(one, two, stuck, extra, parse, p, s, c). nat (tty_buffer_pos c),
      \<lambda>(one, two, stuck, extra, parse, p, s, c). length (tty_buffer c) - p]")
    (auto dest!: framed_turn_continue)

declare framed_loop.simps [simp del]

definition framed_check :: "u8 \<Rightarrow> u8 \<Rightarrow> (int \<Rightarrow> bool) \<Rightarrow> nat \<Rightarrow> (bytes \<Rightarrow> 'a rx_scheme \<Rightarrow> 'a rx_scheme option) \<Rightarrow>
    'a rx_scheme \<Rightarrow> 'a rx_scheme option" where
  "framed_check one two stuck extra parse c =
     (if tty_buffer_pos c = 0 then Some c else framed_loop one two stuck extra parse 0 (tty_buffer_pos c) c)"

section \<open>The same on bytes\<close>

text \<open>
  \<open>k\<close> is where the search begins, as an index into the received bytes. A command is cut out with
  its length byte, without the head; after it come the bytes behind those the length counts.
\<close>

datatype framed_piece = FWait bytes | FSkip nat | FCommand bytes bytes

definition framed_cut :: "u8 \<Rightarrow> u8 \<Rightarrow> (int \<Rightarrow> bool) \<Rightarrow> nat \<Rightarrow> nat \<Rightarrow> bytes \<Rightarrow> framed_piece" where
  "framed_cut one two stuck extra k v =
     (if one \<notin> set (drop k v) then FWait []
      else
        let h = k + length (takeWhile (\<lambda>x. x \<noteq> one) (drop k v)); r = drop h v in
        if length r = 1 then FWait r
        else if r ! 1 \<noteq> two then FSkip (h + 1)
        else if length r \<le> 3 then FWait r
        else if stuck (uint (r ! 2)) then FWait v
        else if unat (r ! 2) + extra > length r - 3 then FWait r
        else FCommand (take (unat (r ! 2) + 1 + extra) (drop 2 r)) (drop (unat (r ! 2) + 3) r))"

lemma framed_cut_at:
  assumes "k \<le> h" "h < length v" "v ! h = one" "one \<notin> set (take (h - k) (drop k v))"
  shows "framed_cut one two stuck extra k v = (let r = drop h v in
        if length r = 1 then FWait r
        else if r ! 1 \<noteq> two then FSkip (h + 1)
        else if length r \<le> 3 then FWait r
        else if stuck (uint (r ! 2)) then FWait v
        else if unat (r ! 2) + extra > length r - 3 then FWait r
        else FCommand (take (unat (r ! 2) + 1 + extra) (drop 2 r)) (drop (unat (r ! 2) + 3) r))"
proof -
  have split: "drop k v = take (h - k) (drop k v) @ one # drop (Suc h) v"
    using assms(1-3) by (metis Cons_nth_drop_Suc append_take_drop_id drop_drop le_add_diff_inverse2 add.commute)
  then have "one \<in> set (drop k v)" by (metis in_set_conv_decomp)
  moreover have "takeWhile (\<lambda>x. x \<noteq> one) (drop k v) = take (h - k) (drop k v)"
    by (subst split, subst takeWhile_append2) (use assms(4) in auto)
  then have "k + length (takeWhile (\<lambda>x. x \<noteq> one) (drop k v)) = h" using assms(1,2) by simp
  ultimately show ?thesis by (simp add: framed_cut_def Let_def)
qed

lemma framed_cut_found:
  assumes "one \<in> set (drop k v)"
  obtains h where "h = k + length (takeWhile (\<lambda>x. x \<noteq> one) (drop k v))" "k \<le> h" "h < length v" "v ! h = one"
    "one \<notin> set (take (h - k) (drop k v))"
proof -
  let ?w = "takeWhile (\<lambda>x. x \<noteq> one) (drop k v)"
  let ?h = "k + length ?w"
  have lt: "length ?w < length (drop k v)" using length_takeWhile_before [OF assms] .
  have "drop k v ! length ?w = one" using nth_length_takeWhile [OF lt] by simp
  moreover have "take (?h - k) (drop k v) = ?w" by (simp add: takeWhile_eq_take [symmetric])
  moreover have "one \<notin> set ?w" by (auto dest: set_takeWhileD)
  moreover have "?h < length v" using lt by simp
  ultimately show ?thesis using that [of ?h] lt by simp
qed

lemma framed_cut_skip: "framed_cut one two stuck extra k v = FSkip k' \<Longrightarrow> k < k' \<and> k' < length v"
proof -
  assume cut: "framed_cut one two stuck extra k v = FSkip k'"
  then have "one \<in> set (drop k v)" by (auto simp: framed_cut_def split: if_splits)
  then obtain h where h: "k \<le> h" "h < length v" "v ! h = one" "one \<notin> set (take (h - k) (drop k v))"
    by (rule framed_cut_found)
  show ?thesis using cut h(1,2) unfolding framed_cut_at [OF h] by (auto simp: Let_def split: if_splits)
qed

lemma framed_cut_command:
  assumes "framed_cut one two stuck extra k v = FCommand cmd r"
  shows "length r < length v"
proof -
  from assms have "one \<in> set (drop k v)" by (auto simp: framed_cut_def split: if_splits)
  then obtain h where h: "k \<le> h" "h < length v" "v ! h = one" "one \<notin> set (take (h - k) (drop k v))"
    by (rule framed_cut_found)
  show ?thesis using assms h(1,2) unfolding framed_cut_at [OF h] by (auto simp: Let_def split: if_splits)
qed

text \<open>
  The whole run, on the received bytes and the rest \<open>m\<close> of the driver's state, with
  \<open>handle\<close> for the effect of \<open>parse_command\<close> on that rest.
\<close>

definition pad :: "bytes \<Rightarrow> bytes" where
  "pad cmd = cmd @ replicate (256 - length cmd) 0"

function framed_spec :: "u8 \<Rightarrow> u8 \<Rightarrow> (int \<Rightarrow> bool) \<Rightarrow> nat \<Rightarrow> (bytes \<Rightarrow> 'm \<Rightarrow> 'm option) \<Rightarrow> nat \<Rightarrow> bytes \<Rightarrow> 'm \<Rightarrow> (bytes \<times> 'm) option" where
  "framed_spec one two stuck extra handle k v m =
     (case framed_cut one two stuck extra k v of
        FWait r \<Rightarrow> Some (r, m)
      | FSkip k' \<Rightarrow> framed_spec one two stuck extra handle k' v m
      | FCommand cmd r \<Rightarrow>
          if length cmd > 256 then None
          else (case handle (pad cmd) m of
             None \<Rightarrow> None
           | Some m \<Rightarrow> if r = [] then Some (r, m) else framed_spec one two stuck extra handle k r m))"
  by auto
termination
  by (relation "measures [\<lambda>(one, two, stuck, extra, handle, k, v, m). length v,
      \<lambda>(one, two, stuck, extra, handle, k, v, m). length v - k]")
    (auto dest: framed_cut_command framed_cut_skip intro: diff_less_mono2)

declare framed_spec.simps [simp del]

lemma framed_spec_induct:
  assumes "\<And>k v m. (\<And>k'. framed_cut one two stuck extra k v = FSkip k' \<Longrightarrow> P k' v m) \<Longrightarrow>
    (\<And>cmd r m'. framed_cut one two stuck extra k v = FCommand cmd r \<Longrightarrow> length cmd \<le> 256 \<Longrightarrow> handle (pad cmd) m = Some m' \<Longrightarrow>
      r \<noteq> [] \<Longrightarrow> P k r m') \<Longrightarrow> P k v m"
  shows "P k v m"
proof -
  have "\<forall>k v m. length v = a \<longrightarrow> length v - k = b \<longrightarrow> P k v m" for a b
  proof (induction a arbitrary: b rule: less_induct)
    case (less a)
    note outer = less
    show ?case
    proof (induction b rule: less_induct)
      case (less b)
      show ?case
      proof (intro allI impI)
        fix k and v :: bytes and m
        assume "length v = a" "length v - k = b"
        then show "P k v m"
          using assms [of k v m] outer less framed_cut_command framed_cut_skip by (metis diff_less_mono2 order.strict_trans)
      qed
    qed
  qed
  then show ?thesis by blast
qed

text \<open>A reader no length byte can stop keeps less than one command.\<close>

lemma framed_cut_wait:
  assumes "framed_cut one two stuck extra k v = FWait r" "\<And>x :: u8. \<not> stuck (uint x)"
  shows "length r \<le> 257 + extra"
proof -
  let ?h = "k + length (takeWhile (\<lambda>x. x \<noteq> one) (drop k v))"
  show ?thesis using assms byte_range(2) [of "drop ?h v ! 2"] by (auto simp: framed_cut_def Let_def split: if_splits)
qed

lemma framed_spec_kept:
  assumes "\<And>x :: u8. \<not> stuck (uint x)"
  shows "framed_spec one two stuck extra handle k v m = Some (r, m') \<Longrightarrow> length r \<le> 257 + extra"
proof (induction k v m rule: framed_spec_induct [where one = one and two = two and stuck = stuck and extra = extra and handle = handle])
  case (1 k v m)
  show ?case
  proof (cases "framed_cut one two stuck extra k v")
    case (FWait q)
    then show ?thesis using "1.prems" framed_cut_wait [OF FWait assms] by (auto simp: framed_spec.simps [of _ _ _ _ _ k v])
  next
    case (FSkip k')
    then show ?thesis using "1.prems" "1.IH"(1) [OF FSkip] by (simp add: framed_spec.simps [of _ _ _ _ _ k v])
  next
    case (FCommand cmd q)
    then show ?thesis using "1.prems" "1.IH"(2) [OF FCommand]
      by (auto simp: framed_spec.simps [of _ _ _ _ _ k v] split: option.splits if_splits)
  qed
qed

section \<open>Streams of frames\<close>

text \<open>
  A frame: the two head bytes, the length, the bytes it counts and the \<open>extra\<close> ones.
  \<open>handle_all\<close> parses a run of commands.
\<close>

definition framed_frame :: "u8 \<Rightarrow> u8 \<Rightarrow> (int \<Rightarrow> bool) \<Rightarrow> nat \<Rightarrow> bytes \<Rightarrow> bool" where
  "framed_frame one two stuck extra f = (length f > 3 \<and> f ! 0 = one \<and> f ! 1 = two \<and> \<not> stuck (uint (f ! 2)) \<and>
     length f = unat (f ! 2) + 3 + extra)"

fun handle_all :: "(bytes \<Rightarrow> 'm \<Rightarrow> 'm option) \<Rightarrow> bytes list \<Rightarrow> 'm \<Rightarrow> 'm option" where
  "handle_all handle [] m = Some m"
| "handle_all handle (cmd # cmds) m =
     do { m \<leftarrow> (if length cmd > 256 then None else handle (pad cmd) m); handle_all handle cmds m }"

lemma handle_all_append: "handle_all handle (xs @ ys) m = do { m \<leftarrow> handle_all handle xs m; handle_all handle ys m }"
  by (induction xs arbitrary: m) (auto split: bind_splits)

lemma framed_frame_ne: "framed_frame one two stuck extra f \<Longrightarrow> f \<noteq> []"
  by (auto simp: framed_frame_def)

lemma framed_frame_length: "framed_frame one two stuck extra f \<Longrightarrow> length f \<le> 258 + extra"
  using byte_range(2) [of "f ! 2"] by (auto simp: framed_frame_def)

text \<open>
  Where the length does not count the checksum, the checksum byte of a parsed frame is still in
  front of the next one. The reader passes over it, in two ways if it looks like a head byte.
\<close>

lemma framed_cut_whole:
  assumes "framed_frame one two stuck extra f" "one \<notin> set (drop k j)" "k \<le> length j"
  shows "framed_cut one two stuck extra k (j @ f @ rest) =
    FCommand (drop 2 f) (drop (length f - extra) f @ rest)"
proof -
  note f = assms(1) [unfolded framed_frame_def]
  have h: "k \<le> length j" "length j < length (j @ f @ rest)" "(j @ f @ rest) ! length j = one"
    "one \<notin> set (take (length j - k) (drop k (j @ f @ rest)))" using f assms(2,3) by (auto simp: nth_append)
  show ?thesis unfolding framed_cut_at [OF h] using f by (auto simp: Let_def nth_append)
qed

lemma framed_cut_part:
  assumes "framed_frame one two stuck extra f" "one \<notin> set (drop k j)" "k \<le> length j" "0 < n" "n < length f"
  shows "framed_cut one two stuck extra k (j @ take n f) = FWait (take n f)"
proof -
  note f = assms(1) [unfolded framed_frame_def]
  have h: "k \<le> length j" "length j < length (j @ take n f)" "(j @ take n f) ! length j = one"
    "one \<notin> set (take (length j - k) (drop k (j @ take n f)))" using f assms(2-) by (auto simp: nth_append)
  show ?thesis unfolding framed_cut_at [OF h] using f assms(4,5) by (auto simp: Let_def min_def)
qed

lemma framed_cut_stray:
  assumes "rest \<noteq> []" "rest ! 0 \<noteq> two"
  shows "framed_cut one two stuck extra 0 (one # rest) = FSkip 1"
  using assms by (subst framed_cut_at [of 0 0]) (auto simp: Let_def)

lemma framed_spec_nil: "framed_spec one two stuck extra handle k [] m = Some ([], m)"
  by (simp add: framed_spec.simps [of _ _ _ _ _ k "[]"] framed_cut_def)

lemma framed_spec_wait: "framed_cut one two stuck extra k v = FWait r \<Longrightarrow> framed_spec one two stuck extra handle k v m = Some (r, m)"
  by (simp add: framed_spec.simps [of _ _ _ _ _ k v])

lemma framed_spec_skip:
  "framed_cut one two stuck extra k v = FSkip k' \<Longrightarrow>
    framed_spec one two stuck extra handle k v m = framed_spec one two stuck extra handle k' v m"
  by (simp add: framed_spec.simps [of _ _ _ _ _ k v])

lemma framed_spec_command:
  "framed_cut one two stuck extra k v = FCommand cmd r \<Longrightarrow>
    framed_spec one two stuck extra handle k v m =
      do { m \<leftarrow> (if length cmd > 256 then None else handle (pad cmd) m); framed_spec one two stuck extra handle k r m }"
  by (subst framed_spec.simps) (auto simp: framed_spec_nil split: option.split)

text \<open>The first bytes of a frame, not all of them.\<close>

definition frame_part :: "(bytes \<Rightarrow> bool) \<Rightarrow> bytes \<Rightarrow> bool" where
  "frame_part P part = (part = [] \<or> (\<exists>g n. P g \<and> part = take n g \<and> n < length g))"

lemma frame_part_cases:
  assumes "frame_part P part"
  obtains "part = []" | g n where "P g" "part = take n g" "0 < n" "n < length g"
  using assms by (cases "part = []") (auto simp: frame_part_def)

text \<open>What is left after whole frames and part of one: that part, or a checksum that looks like a head byte.\<close>

definition left_over :: "u8 \<Rightarrow> nat \<Rightarrow> bytes \<Rightarrow> bytes \<Rightarrow> bool" where
  "left_over one extra part q = (q = part \<or> extra = 1 \<and> part = [] \<and> q = [one])"

lemma framed_spec_pass:
  assumes "one \<noteq> two" "length j \<le> 1" "k \<le> length j" "w \<noteq> []" "w ! 0 = one"
  obtains k' where "k' \<le> length j" "one \<notin> set (drop k' j)"
    "\<And>m. framed_spec one two stuck extra handle k (j @ w) m = framed_spec one two stuck extra handle k' (j @ w) m"
proof (cases "one \<in> set (drop k j)")
  case True
  with assms(2,3) have j: "j = [one]" "k = 0" by (cases j; cases k; auto)+
  have "framed_cut one two stuck extra k (j @ w) = FSkip 1" unfolding j using framed_cut_stray [of w two] assms by simp
  then have skip: "framed_spec one two stuck extra handle k (j @ w) m = framed_spec one two stuck extra handle 1 (j @ w) m" for m
    by (rule framed_spec_skip)
  show ?thesis by (rule that [OF _ _ skip]) (simp_all add: j)
next
  case False
  with assms(3) show ?thesis using that by blast
qed

lemma framed_spec_frames:
  assumes "extra \<le> 1" "one \<noteq> two" "frame_part (framed_frame one two stuck extra) part"
    and "\<forall>f \<in> set gs. framed_frame one two stuck extra f" "length j \<le> extra" "k \<le> length j"
  shows "rel_option (\<lambda>(q, m') m. m' = m \<and> left_over one extra part q)
    (framed_spec one two stuck extra handle k (j @ concat gs @ part) m) (handle_all handle (map (drop 2) gs) m)"
  using assms(4-)
proof (induction gs arbitrary: j k m)
  case Nil
  from assms(3) show ?case
  proof (cases rule: frame_part_cases)
    case 1
    consider "one \<notin> set (drop k j)" | "j = [one]" "k = 0" "extra = 1"
      using Nil assms(1) by (cases j; cases "tl j"; cases k; fastforce)
    then show ?thesis
    proof cases
      assume "one \<notin> set (drop k j)"
      then have "framed_cut one two stuck extra k j = FWait []" by (simp add: framed_cut_def)
      from framed_spec_wait [OF this, of handle m] 1 show ?thesis by (simp add: left_over_def)
    next
      assume j: "j = [one]" "k = 0" "extra = 1"
      then have "framed_cut one two stuck extra k j = FWait [one]" by (simp add: framed_cut_def)
      from framed_spec_wait [OF this, of handle m] 1 j show ?thesis by (simp add: left_over_def)
    qed
  next
    case (2 g n)
    then have part: "part \<noteq> []" "part ! 0 = one" by (auto simp: framed_frame_def)
    obtain k' where k': "k' \<le> length j" "one \<notin> set (drop k' j)"
      "\<And>m. framed_spec one two stuck extra handle k (j @ part) m = framed_spec one two stuck extra handle k' (j @ part) m"
      by (rule framed_spec_pass [OF assms(2) _ _ part]) (use Nil assms(1) in auto)
    from framed_cut_part [OF 2(1) k'(2,1) 2(3,4)] have "framed_cut one two stuck extra k' (j @ part) = FWait part" using 2(2) by simp
    from framed_spec_wait [OF this, of handle m] k'(3) show ?thesis by (simp add: left_over_def)
  qed
next
  case (Cons f gs)
  let ?w = "f @ concat gs @ part" and ?j = "drop (length f - extra) f"
  have f: "framed_frame one two stuck extra f" using Cons.prems by simp
  then have w: "?w \<noteq> []" "?w ! 0 = one" by (auto simp: framed_frame_def nth_append)
  obtain k' where k': "k' \<le> length j" "one \<notin> set (drop k' j)"
    "\<And>m. framed_spec one two stuck extra handle k (j @ ?w) m = framed_spec one two stuck extra handle k' (j @ ?w) m"
    by (rule framed_spec_pass [OF assms(2) _ _ w]) (use Cons.prems assms(1) in auto)
  have cut: "framed_cut one two stuck extra k' (j @ ?w) = FCommand (drop 2 f) (?j @ concat gs @ part)"
    by (rule framed_cut_whole [OF f k'(2,1)])
  have j: "length ?j \<le> extra" "k' \<le> length ?j" using f k'(1) Cons.prems by (auto simp: framed_frame_def)
  have "\<forall>f \<in> set gs. framed_frame one two stuck extra f" using Cons.prems by simp
  from Cons.IH [OF this j] show ?case
    using framed_spec_command [OF cut, of handle m] k'(3)
    by (cases "if length (drop 2 f) > 256 then None else handle (pad (drop 2 f)) m") auto
qed

section \<open>The code does this\<close>

definition rx_view :: "'a rx_scheme \<Rightarrow> bytes \<times> 'a" where
  "rx_view c = (rx_pending c, rx.more c)"

lemma map_option_rel: "rel_option R x y \<Longrightarrow> (\<And>a b. R a b \<Longrightarrow> f a = g b) \<Longrightarrow> map_option f x = map_option g y"
  by (auto elim: option.rel_cases)

text \<open>
  What a function does on the rest of a driver's state, and a run of commands through
  \<open>parse_command\<close> itself.
\<close>

definition on_more :: "(bytes \<Rightarrow> 'a rx_scheme \<Rightarrow> 'a rx_scheme option) \<Rightarrow> bytes \<Rightarrow> 'a \<Rightarrow> 'a option" where
  "on_more parse command m =
     map_option rx.more (parse command \<lparr>tty_buffer = [], tmp_buffer = [], tty_buffer_pos = 0, \<dots> = m\<rparr>)"

fun parse_all :: "(bytes \<Rightarrow> 'a rx_scheme \<Rightarrow> 'a rx_scheme option) \<Rightarrow> bytes list \<Rightarrow> 'a rx_scheme \<Rightarrow> 'a rx_scheme option" where
  "parse_all parse [] c = Some c"
| "parse_all parse (cmd # cmds) c =
     do { c \<leftarrow> (if length cmd > 256 then None else parse (pad cmd) c); parse_all parse cmds c }"

lemma rx_more_update_more: "rx.more (rx.more_update (\<lambda>_. m) c) = m" "rx.more_update (\<lambda>_. m) (rx.more_update (\<lambda>_. m') c) = rx.more_update (\<lambda>_. m) c"
    "rx.more_update (\<lambda>_. rx.more c) c = c"
  by (cases c; simp)+

text \<open>
  What it means that \<open>check\<close> reads the frame \<open>f\<close> as the command \<open>c\<close>, its last byte not used up: as long as a byte of
  the frame is missing nothing happens, and in front of any further bytes the command, with zeros after it, is given to
  \<open>parse\<close> and the run goes on with the last byte of the frame and what follows.
\<close>

definition reads_command :: "('a rx_scheme \<Rightarrow> 'a rx_scheme option) \<Rightarrow> (bytes \<Rightarrow> 'a rx_scheme \<Rightarrow> 'a rx_scheme option) \<Rightarrow>
    bytes \<Rightarrow> bytes \<Rightarrow> bool" where
  "reads_command check parse f c =
     ((\<forall>s n. rx_ok s \<and> n < length f \<and> rx_pending s = take n f \<longrightarrow> map_option rx_view (check s) = Some (rx_view s)) \<and>
      (\<forall>s rest. rx_ok s \<and> rx_pending s = f @ rest \<longrightarrow>
         (case parse (pad c) s of
            None \<Rightarrow> check s = None
          | Some d \<Rightarrow> \<forall>t. rx_ok t \<and> rx_view t = (last f # rest, rx.more d) \<longrightarrow>
              map_option rx_view (check s) = map_option rx_view (check t))))"

text \<open>A \<open>parse_command\<close> that does nothing but what \<open>handle\<close> does on the rest of the state.\<close>

definition give_rest :: "(bytes \<Rightarrow> 'a \<Rightarrow> 'a option) \<Rightarrow> bytes \<Rightarrow> 'a rx_scheme \<Rightarrow> 'a rx_scheme option" where
  "give_rest handle command c = map_option (\<lambda>m. rx.more_update (\<lambda>_. m) c) (handle command (rx.more c))"

lemma length_pad: "length cmd \<le> 256 \<Longrightarrow> length (pad cmd) = 256"
  by (simp add: pad_def)

text \<open>
  \<open>parse_command\<close> reads and changes nothing but the rest of the driver's state, where it does
  what \<open>handle\<close> does.
\<close>

locale framed_reader =
  fixes one two :: u8
    and stuck :: "int \<Rightarrow> bool"
    and extra :: nat
    and parse :: "bytes \<Rightarrow> 'a rx_scheme \<Rightarrow> 'a rx_scheme option"
    and handle :: "bytes \<Rightarrow> 'a \<Rightarrow> 'a option"
  assumes one_nonzero: "one \<noteq> 0"
    and parse_local: "length command = 256 \<Longrightarrow>
      parse command c = map_option (\<lambda>m. rx.more_update (\<lambda>_. m) c) (handle command (rx.more c))"
begin

lemma parse_all_more:
  "parse_all parse cmds c = map_option (\<lambda>m. rx.more_update (\<lambda>_. m) c) (handle_all handle cmds (rx.more c))"
  by (induction cmds arbitrary: c)
    (auto simp: parse_local length_pad rx_more_update_more option.map_comp comp_def split: bind_splits option.splits)

lemma take_refines:
  assumes ok: "rx_ok c" and p: "tty_buffer_pos c = int p" "p \<le> 528"
    and n: "h + 3 + n + extra \<le> p"
    and cmd: "cmd = take (n + 1 + extra) (drop (h + 2) (tty_buffer c))" and r: "r = drop (h + n + 3) (take p (tty_buffer c))"
  shows "case (if length cmd > 256 then None else handle (pad cmd) (rx.more c)) of
      None \<Rightarrow> framed_take extra parse h (int n) (int p - int h - 3) k s c = None
    | Some m \<Rightarrow> \<exists>d. framed_take extra parse h (int n) (int p - int h - 3) k s c = Some (if r = [] then Return d else Continue (k, s, d)) \<and>
        rx_ok d \<and> rx_clear d \<and> rx_view d = (r, m)"
proof -
  note len = rx_okD(1,2) [OF ok]
  have clean: "memset_at (replicate 256 0) 0 0 256 = Some (replicate 256 0)" by (simp add: memset_at_def)
  have lc: "length cmd = n + 1 + extra" using len p n by (simp add: cmd)
  have int_n: "int n + 1 + int extra = int (n + 1 + extra)" by simp
  have copy: "memcpy_at (replicate 256 0) 0 (tty_buffer c) (h + 2) (int n + 1 + int extra) =
      (if length cmd > 256 then None else Some (pad cmd))"
    unfolding int_n lc pad_def using len p n by (simp add: memcpy_at_def cmd del: of_nat_add of_nat_Suc)
  show ?thesis
  proof (cases "length cmd > 256 \<or> handle (pad cmd) (rx.more c) = None")
    case True
    have "length (pad cmd) = 256" if "\<not> length cmd > 256" using that by (simp add: pad_def)
    then have "framed_take extra parse h (int n) (int p - int h - 3) k s c = None"
      unfolding framed_take_def clean bind.bind_lunit copy using True by (auto simp: parse_local)
    with True show ?thesis by auto
  next
    case False
    then obtain m where m: "handle (pad cmd) (rx.more c) = Some m" and short: "\<not> length cmd > 256" by auto
    define c1 where "c1 = rx.more_update (\<lambda>_. m) c"
    have v: "parse (pad cmd) c = Some c1" using parse_local [of "pad cmd" c] m short by (simp add: c1_def pad_def)
    have same: "tty_buffer c1 = tty_buffer c" "tmp_buffer c1 = tmp_buffer c" "rx.more c1 = m"
      by (cases c; simp add: c1_def)+
    define q where "q = h + n + 3"
    define l where "l = p - q"
    have room: "q + l \<le> 528" using p n by (simp add: l_def q_def)
    have rk: "r = take l (drop q (tty_buffer c))" by (simp add: r drop_take l_def q_def)
    then have lr: "length r = l" using len room by simp
    note steps = rx_consume [OF len room, folded rk]
    have i: "int h + 2 + 1 + int n = int q" "h + 2 + nat (int n) + 1 = q" "int p - int h - 3 - int n = int l"
      using n by (auto simp: q_def l_def)
    define d where "d = c1\<lparr>tmp_buffer := replicate 528 0, tty_buffer_pos := int (length r), tty_buffer := r @ replicate (528 - length r) 0\<rparr>"
    have "framed_take extra parse h (int n) (int p - int h - 3) k s c = Some (if r = [] then Return d else Continue (k, s, d))"
      unfolding framed_take_def clean bind.bind_lunit copy if_not_P [OF short] v same i steps(1-4) Let_def
      by (cases "l = 0") (use lr steps(5,6) in \<open>auto simp: d_def\<close>)
    moreover have "rx_ok d" using lr room by (simp add: rx_ok_def d_def)
    moreover have "rx_clear d" by (auto simp: rx_clear_def d_def nth_append)
    moreover have "rx_view d = (r, m)" using same(3) by (cases c1) (simp add: rx_view_def d_def rx_pending_def)
    ultimately show ?thesis using m short by auto
  qed
qed

text \<open>What a turn must do for a piece of the received bytes.\<close>

definition piece_done :: "nat \<Rightarrow> int \<Rightarrow> nat \<Rightarrow> 'a rx_scheme \<Rightarrow> ('a rx_scheme, nat \<times> int \<times> 'a rx_scheme) turn option \<Rightarrow> framed_piece \<Rightarrow> bool" where
  "piece_done k s p c t piece =
     (case piece of
        FWait r \<Rightarrow> \<exists>d. t = Some (Return d) \<and> rx_ok d \<and> rx_view d = (r, rx.more c)
      | FSkip k' \<Rightarrow> t = Some (Continue (k', int (p - k'), c))
      | FCommand cmd r \<Rightarrow>
          (case (if length cmd > 256 then None else handle (pad cmd) (rx.more c)) of
             None \<Rightarrow> t = None
           | Some m \<Rightarrow> \<exists>d. t = Some (if r = [] then Return d else Continue (k, s, d)) \<and>
               rx_ok d \<and> rx_clear d \<and> rx_view d = (r, m)))"

lemma kept:
  assumes "rx_ok c" "p \<le> 528" "h < p" "length b = 528" "length t = 528" "take (p - h) b = drop h (take p (tty_buffer c))"
  shows "rx_ok (c\<lparr>tty_buffer := b, tmp_buffer := t, tty_buffer_pos := int (p - h)\<rparr>)"
    and "rx_view (c\<lparr>tty_buffer := b, tmp_buffer := t, tty_buffer_pos := int (p - h)\<rparr>) = (drop h (take p (tty_buffer c)), rx.more c)"
  using assms(2-) by (simp add: rx_ok_def) (cases c, use assms(6) in \<open>simp add: rx_view_def rx_pending_def\<close>)

lemma at_head_refines:
  assumes ok: "rx_ok c" and p: "tty_buffer_pos c = int p" "p \<le> 528"
    and h: "k \<le> h" "h < p" "tty_buffer c ! h = one" "one \<notin> set (take (h - k) (drop k (rx_pending c)))"
  shows "piece_done k s p c (framed_at_head one two stuck extra parse h k s c) (framed_cut one two stuck extra k (rx_pending c))"
proof -
  note len = rx_okD(1,2) [OF ok]
  have pend: "rx_pending c = take p (tty_buffer c)" using p by (simp add: rx_pending_def)
  have lv: "length (rx_pending c) = p" using len p by (simp add: pend)
  let ?r = "drop h (take p (tty_buffer c))" and ?lb = "tty_buffer c ! (h + 2)"
  have lr: "length ?r = p - h" using len p by simp
  obtain b where b: "memcpy_at (tty_buffer c) 0 (tty_buffer c) h (int (p - h)) = Some b" "length b = 528" "take (p - h) b = ?r"
    using memcpy_to_front [of "tty_buffer c" h "p - h"] len p h by (auto simp: drop_take)
  note keep = kept [OF ok p(2) h(2) b(2) len(2) b(3)]
  have cut: "framed_cut one two stuck extra k (rx_pending c) = (
        if length ?r = 1 then FWait ?r
        else if ?r ! 1 \<noteq> two then FSkip (h + 1)
        else if length ?r \<le> 3 then FWait ?r
        else if stuck (uint (?r ! 2)) then FWait (rx_pending c)
        else if unat (?r ! 2) + extra > length ?r - 3 then FWait ?r
        else FCommand (take (unat (?r ! 2) + 1 + extra) (drop 2 ?r)) (drop (unat (?r ! 2) + 3) ?r))"
    using framed_cut_at [OF h(1), of "rx_pending c" one two stuck extra] h lv len p by (simp add: Let_def pend)
  have e1: "?r ! 1 = tty_buffer c ! (h + 1)" if "p - h \<noteq> 1" using that h(2) len p by simp
  have e2: "?r ! 2 = ?lb" if "p - h > 3" using that len p by simp
  have l: "rd (tty_buffer c) h = Some one" "p - h > 1 \<Longrightarrow> rd (tty_buffer c) (h + 1) = Some (tty_buffer c ! (h + 1))"
      "p - h > 3 \<Longrightarrow> rd (tty_buffer c) (h + 2) = Some ?lb" using h len p by (simp_all add: rd_def)
  consider (one_byte) "p - h = 1" | (skip) "p - h > 1" "tty_buffer c ! (h + 1) \<noteq> two"
    | (few) "p - h > 1" "tty_buffer c ! (h + 1) = two" "p - h \<le> 3"
    | (many) "p - h > 3" "tty_buffer c ! (h + 1) = two" using h(2) by linarith
  then show ?thesis
  proof cases
    case one_byte
    then have "p = h + 1" using h(2) by simp
    then have "framed_at_head one two stuck extra parse h k s c = Some (Return (c\<lparr>tty_buffer := b, tty_buffer_pos := int (p - h)\<rparr>))"
      using b p by (simp add: framed_at_head_def)
    with one_byte cut keep lr show ?thesis by (simp add: piece_done_def)
  next
    case skip
    then have "int h + 1 \<noteq> int p" by linarith
    then have "framed_at_head one two stuck extra parse h k s c = Some (Continue (h + 1, int (p - (h + 1)), c))"
      using skip p l by (simp add: framed_at_head_def)
    with skip cut lr e1 show ?thesis by (simp add: piece_done_def)
  next
    case few
    have "framed_at_head one two stuck extra parse h k s c = Some (Return (c\<lparr>tty_buffer := b, tty_buffer_pos := int (p - h)\<rparr>))"
    proof -
      consider "p = h + 2" | "p = h + 3" using few h(2) by linarith
      then show ?thesis by cases (use b p l few in \<open>simp_all add: framed_at_head_def\<close>)
    qed
    with few cut keep lr e1 show ?thesis by (simp add: piece_done_def)
  next
    case many
    note keep' = kept [OF ok p(2) h(2)]
    have i: "int h + 1 \<noteq> int p" "int h + 2 \<noteq> int p" "int h + 3 \<noteq> int p" "int p - (int h + 2 + 1) = int p - int h - 3"
      "int p - int h - 3 + 3 = int (p - h)" "h + (p - h) \<le> 528" using many h p by linarith+
    have many1: "p - h > 1" using many by simp
    note run = framed_at_head_def [of one two stuck extra parse h k s c, unfolded p(1) l(1) l(2) [OF many1] l(3) [OF many(1)]
        bind.bind_lunit Let_def i(4)]
    obtain n where n: "n = unat ?lb" "uint ?lb = int n" by simp
    have cut': "framed_cut one two stuck extra k (rx_pending c) = (
        if stuck (int n) then FWait (rx_pending c)
        else if n + extra > p - h - 3 then FWait ?r
        else FCommand (take (n + 1 + extra) (drop 2 ?r)) (drop (n + 3) ?r))"
      unfolding cut lr e1 [OF less_imp_neq [OF many1, symmetric]] e2 [OF many(1)] n(2) n(1) [symmetric] using many by simp
    show ?thesis
    proof (cases "stuck (int n)")
      case True
      then have "framed_at_head one two stuck extra parse h k s c = Some (Return c)"
        unfolding run n(2) using i(1-3) many(2) by simp
      with True cut' ok show ?thesis by (simp add: piece_done_def rx_view_def)
    next
      case False
      show ?thesis
      proof (cases "n + extra > p - h - 3")
        case True
        note steps = rx_shift [OF len i(6)]
        let ?b = "take (p - h) (drop h (tty_buffer c)) @ drop (p - h) (tty_buffer c)"
        have big: "int n + int extra > int p - int h - 3" using True many by linarith
        have "framed_at_head one two stuck extra parse h k s c =
            Some (Return (c\<lparr>tty_buffer := ?b, tmp_buffer := replicate 528 0, tty_buffer_pos := int (p - h)\<rparr>))"
          unfolding run n(2) using i(1-3) many(2) big False by (simp only: if_False if_True simp_thms i(5) steps bind.bind_lunit)
        moreover have "length ?b = 528" "take (p - h) ?b = ?r" using len i(6) by (simp_all add: drop_take)
        ultimately show ?thesis using True False cut' keep' [of ?b "replicate 528 0"] by (simp add: piece_done_def)
      next
        case whole: False
        have small: "\<not> int n + int extra > int p - int h - 3" "h + 3 + n + extra \<le> p" using whole many by linarith+
        have "framed_at_head one two stuck extra parse h k s c = framed_take extra parse h (int n) (int p - int h - 3) k s c"
          unfolding run n(2) using i(1-3) many(2) small(1) False by (simp only: if_False if_True simp_thms)
        moreover have "take (n + 1 + extra) (drop 2 ?r) = take (n + 1 + extra) (drop (h + 2) (tty_buffer c))"
          using small(2) by (simp add: drop_take min_def add_ac)
        moreover have "drop (n + 3) ?r = drop (h + n + 3) (take p (tty_buffer c))" by (simp add: add_ac)
        ultimately show ?thesis using take_refines [OF ok p small(2) refl refl, of k s] cut' False whole
          by (simp only: piece_done_def framed_piece.case if_False)
      qed
    qed
  qed
qed

lemma turn_refines:
  assumes ok: "rx_ok c" and p: "tty_buffer_pos c = int p" "p \<le> 528"
    and s: "p \<le> k + nat s" "0 \<le> s" "k + nat s \<le> 528" "\<And>i. p \<le> i \<Longrightarrow> i < k + nat s \<Longrightarrow> tty_buffer c ! i = 0"
  shows "piece_done k s p c (framed_turn one two stuck extra parse k s c) (framed_cut one two stuck extra k (rx_pending c))"
proof -
  let ?v = "rx_pending c"
  have v: "?v = take p (tty_buffer c)" using p by (simp add: rx_pending_def)
  have chr: "memchr_at (tty_buffer c) k one s = Some (if one \<in> set (drop k ?v)
      then Some (k + length (takeWhile (\<lambda>x. x \<noteq> one) (drop k ?v))) else None)"
    unfolding v by (rule memchr_at_window) (use s rx_okD(1) [OF ok] one_nonzero in auto)
  show ?thesis
  proof (cases "one \<in> set (drop k ?v)")
    case True
    then obtain h where h: "h = k + length (takeWhile (\<lambda>x. x \<noteq> one) (drop k ?v))" "k \<le> h" "h < length ?v" "?v ! h = one"
      "one \<notin> set (take (h - k) (drop k ?v))" by (rule framed_cut_found)
    have turn: "framed_turn one two stuck extra parse k s c = framed_at_head one two stuck extra parse h k s c"
      using chr True h(1) by (simp add: framed_turn_def)
    have "h < p" "tty_buffer c ! h = one" using h(3,4) by (simp_all add: v)
    then show ?thesis unfolding turn by (rule at_head_refines [OF ok p h(2) _ _ h(5)])
  next
    case False
    then have "framed_cut one two stuck extra k ?v = FWait []" by (simp add: framed_cut_def)
    moreover have "framed_turn one two stuck extra parse k s c = Some (Return (c\<lparr>tty_buffer_pos := 0\<rparr>))"
      using chr False by (simp add: framed_turn_def)
    moreover have "rx_ok (c\<lparr>tty_buffer_pos := 0\<rparr>)" "rx_view (c\<lparr>tty_buffer_pos := 0\<rparr>) = ([], rx.more c)"
      using ok by (cases c; simp add: rx_ok_def rx_view_def rx_pending_def)+
    ultimately show ?thesis by (simp add: piece_done_def)
  qed
qed

lemma loop_refines:
  assumes "rx_ok c" "tty_buffer_pos c = int p" "p \<le> 528" "p \<le> k + nat s" "0 \<le> s" "k + nat s \<le> 528"
    "\<And>i. p \<le> i \<Longrightarrow> i < k + nat s \<Longrightarrow> tty_buffer c ! i = 0" "rx_view c = (v, m)"
  shows "rel_option (\<lambda>d a. rx_ok d \<and> rx_view d = a) (framed_loop one two stuck extra parse k s c)
    (framed_spec one two stuck extra handle k v m)"
  using assms
proof (induction k v m arbitrary: c p s rule: framed_spec_induct [where one = one and two = two and stuck = stuck and extra = extra and handle = handle])
  case (1 k v m c p s)
  note prems = "1.prems"
  have pend: "rx_pending c = v" "rx.more c = m" using prems(8) by (simp_all add: rx_view_def)
  have lp: "length v = p" using length_rx_pending [OF prems(1)] prems(2) pend by simp
  note turn = turn_refines [OF prems(1-7), unfolded pend piece_done_def]
  note loop = framed_loop.simps [of one two stuck extra parse k s c]
  note spec = framed_spec.simps [of one two stuck extra handle k v m]
  show ?case
  proof (cases "framed_cut one two stuck extra k v")
    case (FWait r)
    with turn loop spec show ?thesis by auto
  next
    case (FSkip k')
    have k': "k < k'" "k' < p" using framed_cut_skip [OF FSkip] lp by auto
    have "rel_option (\<lambda>d a. rx_ok d \<and> rx_view d = a) (framed_loop one two stuck extra parse k' (int (p - k')) c)
        (framed_spec one two stuck extra handle k' v m)"
      by (rule "1.IH"(1) [OF FSkip prems(1,2,3)]) (use k' prems in auto)
    with FSkip turn loop spec show ?thesis by simp
  next
    case (FCommand cmd r)
    show ?thesis
    proof (cases "length cmd > 256 \<or> handle (pad cmd) m = None")
      case True
      with FCommand turn loop spec show ?thesis by (auto split: if_splits)
    next
      case False
      then obtain m' where m': "handle (pad cmd) m = Some m'" "length cmd \<le> 256" by auto
      with FCommand turn obtain d where
        d: "framed_turn one two stuck extra parse k s c = Some (if r = [] then Return d else Continue (k, s, d))" "rx_ok d" "rx_clear d"
          "rx_view d = (r, m')" by auto
      show ?thesis
      proof (cases "r = []")
        case True
        with d FCommand m' loop spec show ?thesis by simp
      next
        case False
        have "rx_pending d = r" using d(4) by (simp add: rx_view_def)
        then have pos: "tty_buffer_pos d = int (length r)" using length_rx_pending [OF d(2)] rx_okD(3) [OF d(2)] by auto
        have lt: "length r < p" using framed_cut_command [OF FCommand] lp by simp
        have z: "tty_buffer d ! i = 0" if "length r \<le> i" "i < 528" for i using d(3) pos that by (simp add: rx_clear_def)
        have "rel_option (\<lambda>d a. rx_ok d \<and> rx_view d = a) (framed_loop one two stuck extra parse k s d)
            (framed_spec one two stuck extra handle k r m')"
          by (rule "1.IH"(2) [OF FCommand m'(2,1) False d(2) pos]) (use lt prems z d(4) in auto)
        with False d FCommand m' loop spec show ?thesis by simp
      qed
    qed
  qed
qed

text \<open>The function on a buffer that holds anything; it does nothing on an empty one.\<close>

lemma check_refines:
  assumes "rx_ok c"
  shows "rel_option (\<lambda>d a. rx_ok d \<and> rx_view d = a) (framed_check one two stuck extra parse c)
    (framed_spec one two stuck extra handle 0 (rx_pending c) (rx.more c))"
proof (cases "tty_buffer_pos c = 0")
  case True
  then have "rx_pending c = []" by (simp add: rx_pending_def)
  moreover from this have "framed_spec one two stuck extra handle 0 (rx_pending c) (rx.more c) = Some (rx_view c)"
    by (simp add: framed_spec.simps framed_cut_def rx_view_def)
  ultimately show ?thesis using True assms by (simp add: framed_check_def)
next
  case False
  obtain p where p: "tty_buffer_pos c = int p" "p \<le> 528"
    using rx_okD(3,4) [OF assms] by (metis nonneg_int_cases of_nat_le_iff of_nat_numeral)
  then show ?thesis using loop_refines [OF assms p, of 0 "int p"] False by (simp add: framed_check_def rx_view_def)
qed

lemma check_view:
  "rx_ok c \<Longrightarrow> map_option rx_view (framed_check one two stuck extra parse c) =
     framed_spec one two stuck extra handle 0 (rx_pending c) (rx.more c)"
  using map_option_rel [OF check_refines, of c rx_view "\<lambda>a. a"] by (simp add: option.map_ident)

lemma check_waits:
  assumes "framed_frame one two stuck extra f" "rx_ok s" "n < length f" "rx_pending s = take n f"
  shows "map_option rx_view (framed_check one two stuck extra parse s) = Some (rx_view s)"
proof (cases "n = 0")
  case True
  then show ?thesis using check_view [OF assms(2)] assms(4) by (simp add: framed_spec_nil rx_view_def)
next
  case False
  with framed_cut_part [OF assms(1), of 0 "[]" n] assms(3) have "framed_cut one two stuck extra 0 (take n f) = FWait (take n f)" by simp
  from framed_spec_wait [OF this] show ?thesis using check_view [OF assms(2)] assms(4) by (simp add: rx_view_def)
qed

lemma check_reads:
  assumes f: "framed_frame one two stuck extra f" "extra = 1" "length f \<le> 258"
  shows "reads_command (framed_check one two stuck extra parse) parse f (drop 2 f)"
  unfolding reads_command_def
proof (intro conjI allI impI; (elim conjE)?)
  fix s :: "'a rx_scheme" and rest assume s: "rx_ok s" "rx_pending s = f @ rest"
  let ?cmd = "drop 2 f"
  have last: "drop (length f - extra) f = [last f]"
    using framed_frame_ne [OF f(1)] f(2) by (metis append_butlast_last_id append_eq_conv_conj length_butlast)
  have "framed_cut one two stuck extra 0 (f @ rest) = FCommand ?cmd (last f # rest)"
    using framed_cut_whole [OF f(1), of 0 "[]" rest] last by simp
  note spec = framed_spec_command [OF this, of handle "rx.more s"]
  have short: "\<not> length ?cmd > 256" using f(3) unfolding length_drop by linarith
  have view: "map_option rx_view (framed_check one two stuck extra parse s) =
      do { m \<leftarrow> handle (pad ?cmd) (rx.more s); framed_spec one two stuck extra handle 0 (last f # rest) m }"
    using check_view [OF s(1)] unfolding s(2) spec if_not_P [OF short] .
  have parse: "parse (pad ?cmd) s = map_option (\<lambda>m. rx.more_update (\<lambda>_. m) s) (handle (pad ?cmd) (rx.more s))"
    using f(3) by (intro parse_local length_pad) simp
  show "case parse (pad ?cmd) s of None \<Rightarrow> framed_check one two stuck extra parse s = None
      | Some d \<Rightarrow> \<forall>t. rx_ok t \<and> rx_view t = (last f # rest, rx.more d) \<longrightarrow>
          map_option rx_view (framed_check one two stuck extra parse s) = map_option rx_view (framed_check one two stuck extra parse t)"
    using view check_view by (auto simp: parse rx_view_def rx_more_update_more split: option.split)
qed (use check_waits [OF f(1)] in blast)

end

text \<open>
  At most one byte is not counted by the length, and the two head bytes differ: then a stream of
  frames is parsed frame by frame, however the kernel cuts it.
\<close>

locale framed_stream = framed_reader +
  assumes extra_le: "extra \<le> 1" and heads_differ: "one \<noteq> two"
begin

abbreviation frame :: "bytes \<Rightarrow> bool" where
  "frame \<equiv> framed_frame one two stuck extra"

lemma left_over_split:
  assumes "left_over one extra part q"
  obtains j where "q = j @ part" "length j \<le> extra" "length q \<le> length part + 1"
  using that [of "[]"] that [of "[one]"] assms by (auto simp: left_over_def)

lemma check_frames:
  assumes "rx_ok c" "\<forall>f \<in> set gs. frame f" "frame_part frame part" "rx_pending c = j @ concat gs @ part" "length j \<le> extra"
  shows "rel_option (\<lambda>d m. rx_ok d \<and> rx.more d = m \<and> left_over one extra part (rx_pending d))
    (framed_check one two stuck extra parse c) (handle_all handle (map (drop 2) gs) (rx.more c))"
  using check_refines [OF assms(1)] framed_spec_frames [OF extra_le heads_differ assms(3,2,5) le0, of handle "rx.more c"]
  unfolding assms(4)
  by (auto simp: rel_option_iff rx_view_def split: option.splits)

lemma thread_frames:
  assumes "\<forall>f \<in> set fs. frame f" "\<forall>x \<in> set cs. length x \<le> 256" "rx_ok c"
    and "left_over one extra part (rx_pending c)" "part @ concat cs = concat fs" "fs \<noteq> [] \<Longrightarrow> length part < length (hd fs)"
  shows "rel_option (\<lambda>(ended, d) m. \<not> ended \<and> rx_ok d \<and> rx.more d = m \<and> left_over one extra [] (rx_pending d))
    (read_thread mx (framed_check one two stuck extra parse) r (map Read_bytes cs) c)
    (handle_all handle (map (drop 2) fs) (rx.more c))"
  using assms
proof (induction cs arbitrary: c fs part)
  case Nil
  then have "fs = []" by (cases fs) auto
  with Nil show ?case by simp
next
  case (Cons x cs)
  note prems = Cons.prems
  have "(part @ x) @ concat cs = concat fs" using prems(5) by simp
  moreover have "\<forall>f \<in> set fs. f \<noteq> []" using prems(1) framed_frame_ne by blast
  ultimately obtain gs hs part' where dec: "fs = gs @ hs" "part @ x = concat gs @ part'" "part' @ concat cs = concat hs"
    "part' = [] \<or> (\<exists>h hs' k. hs = h # hs' \<and> part' = take k h \<and> k < length h)" by (rule concat_prefix)
  obtain j where j: "rx_pending c = j @ part" "length j \<le> extra" "length (rx_pending c) \<le> length part + 1"
    using prems(4) by (rule left_over_split)
  have "length part \<le> 259"
    using prems(1,5,6) framed_frame_length [of one two stuck extra "hd fs"] extra_le by (cases "fs = []") (auto simp: less_le_not_le)
  moreover have "length x \<le> 256" using prems(2) by simp
  ultimately have "tty_buffer_pos c + int (length x) \<le> int (MAX_BUFFER_STRING + 16)"
    using j(3) length_rx_pending [OF prems(3)] rx_okD(3) [OF prems(3)] by linarith
  from rx_fill_ok [OF prems(3) this] obtain u where u: "rx_fill x c = Some u" "rx_ok u"
    "rx_pending u = rx_pending c @ x" "rx.more u = rx.more c" by metis
  have part': "frame_part frame part'" using dec(1,4) prems(1) by (auto simp: frame_part_def)
  have check: "rel_option (\<lambda>d m. rx_ok d \<and> rx.more d = m \<and> left_over one extra part' (rx_pending d))
      (framed_check one two stuck extra parse u) (handle_all handle (map (drop 2) gs) (rx.more c))"
    unfolding u(4) [symmetric]
    by (rule check_frames [OF u(2) _ part' _ j(2)]) (use prems(1) dec(1,2) u(3) j(1) in auto)
  show ?case
  proof (cases "handle_all handle (map (drop 2) gs) (rx.more c)")
    case None
    with check u(1) show ?thesis by (simp add: dec(1) handle_all_append)
  next
    case (Some m)
    with check obtain v where v: "framed_check one two stuck extra parse u = Some v" "rx_ok v" "rx.more v = m"
      "left_over one extra part' (rx_pending v)" by (auto simp: option_rel_Some2)
    have "rel_option (\<lambda>(ended, d) m. \<not> ended \<and> rx_ok d \<and> rx.more d = m \<and> left_over one extra [] (rx_pending d))
      (read_thread mx (framed_check one two stuck extra parse) r (map Read_bytes cs) v)
      (handle_all handle (map (drop 2) hs) (rx.more v))"
    proof (rule Cons.IH [OF _ _ v(2,4) dec(3)])
      show "length part' < length (hd hs)" if "hs \<noteq> []"
        using dec(4) that prems(1) dec(1) framed_frame_ne by (cases hs) auto
    qed (use prems dec in auto)
    with u(1) v Some show ?thesis by (simp add: dec(1) handle_all_append)
  qed
qed

text \<open>The thread from an empty buffer, against the commands given to \<open>parse_command\<close> directly.\<close>

lemma thread_parses:
  assumes "\<forall>f \<in> set fs. frame f" "\<forall>x \<in> set cs. length x \<le> 256" "concat cs = concat fs" "rx_ok c" "rx_pending c = []"
  shows "rel_option (\<lambda>(ended, d) e. \<not> ended \<and> rx_ok d \<and> rx.more d = rx.more e \<and> left_over one extra [] (rx_pending d))
    (read_thread mx (framed_check one two stuck extra parse) r (map Read_bytes cs) c) (parse_all parse (map (drop 2) fs) c)"
proof -
  have start: "left_over one extra [] (rx_pending c)" using assms(5) by (simp add: left_over_def)
  have "length [] < length (hd fs)" if "fs \<noteq> []" using that assms(1) by (cases fs) (auto dest: framed_frame_ne)
  then have "rel_option (\<lambda>(ended, d) m. \<not> ended \<and> rx_ok d \<and> rx.more d = m \<and> left_over one extra [] (rx_pending d))
    (read_thread mx (framed_check one two stuck extra parse) r (map Read_bytes cs) c)
    (handle_all handle (map (drop 2) fs) (rx.more c))"
    by (intro thread_frames [OF assms(1,2,4) start]) (use assms(3) in auto)
  then show ?thesis unfolding parse_all_more by (simp add: option.rel_map rx_more_update_more split_def)
qed

end

end
