(* ===== verification/Mpeg_Delivery.thy ===== *)
theory Mpeg_Delivery
  imports Mpeg Framed_Reader
begin

text \<open>
  The read thread of the MPEG driver, \<open>check_full_command\<close> and \<open>read_thread_func\<close> of
  \<^verbatim>\<open>src/hardware/mx5x/libmpeg/mpeg.cpp\<close>: what it does with a stream of frames, however
  the kernel cuts it into reads, and how a stray head byte makes it drop a frame.
\<close>

section \<open>The code\<close>

text \<open>The length byte is compared with \<open>MAX_COMMAND_BYTE_LENGTH\<close>, which it never exceeds; it counts the checksum.\<close>

definition mpeg_stuck :: "int \<Rightarrow> bool" where
  "mpeg_stuck len = (len > 256)"

definition mpeg_check_full_command :: "mpeg_env \<Rightarrow> mpeg_state \<Rightarrow> mpeg_state option" where
  "mpeg_check_full_command env =
     framed_check MPEG_PROTOCAL_FRAME_START_BYTE_ONE MPEG_PROTOCAL_FRAME_START_BYTE_TWO mpeg_stuck 0 (parse_command env)"

definition mpeg_read_thread_func :: "mpeg_env \<Rightarrow> read_event list \<Rightarrow> mpeg_state \<Rightarrow> (bool \<times> mpeg_state) option" where
  "mpeg_read_thread_func env = read_thread 3 (mpeg_check_full_command env) 0"

section \<open>What it does on bytes\<close>

lemma mpeg_not_stuck: "\<not> mpeg_stuck (uint (x :: u8))"
  using byte_range(1) [of x] by (simp add: mpeg_stuck_def)

lemma parse_command_local:
  assumes "length command = 256"
  shows "parse_command env command c = map_option (\<lambda>m. rx.more_update (\<lambda>_. m) c) (on_more (parse_command env) command (rx.more c))"
  unfolding on_more_def parse_command_eq [OF assms]
  by (cases c) (auto simp: push_mpeg_notificaiton_def push_notification_def Let_def split: option.split)

interpretation mpeg_reader: framed_stream MPEG_PROTOCAL_FRAME_START_BYTE_ONE MPEG_PROTOCAL_FRAME_START_BYTE_TWO mpeg_stuck 0
  "parse_command env" "on_more (parse_command env)" for env
  by unfold_locales
    (simp_all add: parse_command_local MPEG_PROTOCAL_FRAME_START_BYTE_ONE_def MPEG_PROTOCAL_FRAME_START_BYTE_TWO_def)

abbreviation mpeg_frame :: "bytes \<Rightarrow> bool" where
  "mpeg_frame \<equiv> framed_frame MPEG_PROTOCAL_FRAME_START_BYTE_ONE MPEG_PROTOCAL_FRAME_START_BYTE_TWO mpeg_stuck 0"

abbreviation mpeg_bytes :: "mpeg_env \<Rightarrow> nat \<Rightarrow> bytes \<Rightarrow> mpeg_ext \<Rightarrow> (bytes \<times> mpeg_ext) option" where
  "mpeg_bytes env \<equiv> framed_spec MPEG_PROTOCAL_FRAME_START_BYTE_ONE MPEG_PROTOCAL_FRAME_START_BYTE_TWO mpeg_stuck 0
     (on_more (parse_command env))"

lemma mpeg_check_view:
  "rx_ok c \<Longrightarrow> map_option rx_view (mpeg_check_full_command env c) = mpeg_bytes env 0 (rx_pending c) (rx.more c)"
  unfolding mpeg_check_full_command_def
  using map_option_rel [OF mpeg_reader.check_refines, of c rx_view "\<lambda>a. a" env] by (simp add: option.map_ident)

lemma mpeg_check_keeps:
  assumes "rx_ok c" "mpeg_check_full_command env c = Some d"
  shows "rx_ok d \<and> tty_buffer_pos d \<le> 257"
proof -
  have d: "rx_ok d" "mpeg_bytes env 0 (rx_pending c) (rx.more c) = Some (rx_pending d, rx.more d)"
    using mpeg_reader.check_refines [OF assms(1), of env] assms(2)
    by (auto simp: mpeg_check_full_command_def option_rel_Some1 rx_view_def)
  have "length (rx_pending d) \<le> 257 + 0" by (rule framed_spec_kept [where stuck = mpeg_stuck, OF mpeg_not_stuck d(2)])
  with d(1) length_rx_pending [OF d(1)] show ?thesis by simp
qed

interpretation mpeg_rx: receive_buffer "mpeg_check_full_command env" 257 256 for env
  by unfold_locales (use mpeg_check_keeps in auto)

section \<open>Properties\<close>

lemma mpeg_init_ok: "rx_ok mpeg_init" "tty_buffer_pos mpeg_init = 0" "rx_pending mpeg_init = []"
  by (simp_all add: mpeg_init_def rx_ok_def rx_pending_def)

definition mpeg_holding :: "bytes \<Rightarrow> mpeg_state" where
  "mpeg_holding v = mpeg_init\<lparr>tty_buffer := v @ replicate (528 - length v) 0, tty_buffer_pos := int (length v)\<rparr>"

lemma mpeg_holding_ok:
  assumes "length v \<le> 528"
  shows "rx_ok (mpeg_holding v)" "rx_pending (mpeg_holding v) = v" "rx.more (mpeg_holding v) = rx.more mpeg_init"
  using assms by (simp_all add: mpeg_holding_def rx_ok_def rx_pending_def mpeg_init_def)

definition mpeg_example_env :: mpeg_env where
  "mpeg_example_env = \<lparr>me_stack = \<lambda>_ _. 0, me_malloc = \<lambda>_. 1\<rparr>"

text \<open>
  C4. \<open>check_full_command\<close> of the MPEG driver does on its buffers what the cutting of commands
  does on the bytes received, with undefined behaviour exactly where parsing a command has it.
\<close>

theorem mpeg_check_refines:
  assumes "rx_ok c"
  shows "map_option rx_view (mpeg_check_full_command env c) =
    framed_spec MPEG_PROTOCAL_FRAME_START_BYTE_ONE MPEG_PROTOCAL_FRAME_START_BYTE_TWO mpeg_stuck 0
      (on_more (parse_command env)) 0 (rx_pending c) (rx.more c)"
  using assms by (rule mpeg_check_view)

theorem mpeg_check_refines_witness:
  "map_option rx_view (mpeg_check_full_command mpeg_example_env (mpeg_holding [0x4B, 0xB4, 2, 0x80, 0x7E])) =
    framed_spec MPEG_PROTOCAL_FRAME_START_BYTE_ONE MPEG_PROTOCAL_FRAME_START_BYTE_TWO mpeg_stuck 0
      (on_more (parse_command mpeg_example_env)) 0 [0x4B, 0xB4, 2, 0x80, 0x7E] (rx.more mpeg_init)"
  using mpeg_check_refines [of "mpeg_holding [0x4B, 0xB4, 2, 0x80, 0x7E]" mpeg_example_env] mpeg_holding_ok [of "[0x4B, 0xB4, 2, 0x80, 0x7E]"]
  by simp

text \<open>
  C22. The read thread of the MPEG driver stays inside its buffers. From the initial state, after any
  rounds of at most 256 bytes that it survives, at most 257 bytes are kept. The next read of at most 256 bytes is
  then copied wholly inside \<open>tty_buffer\<close>, within its first 513 bytes, right behind the bytes kept, and leaves
  buffers of the right shape; what the round does, and whether it ends in undefined behaviour, is what the cutting of
  commands does on the bytes kept and read. The bound 513 exceeds \<open>MAX_BUFFER_STRING\<close> by one byte, and the witness reaches it.
\<close>

theorem mpeg_thread_buffers:
  assumes "\<forall>e \<in> set es. fits_buf 256 e" "length bs \<le> 256" "mpeg_read_thread_func env es mpeg_init = Some (ended, d)"
  shows "rx_ok d \<and> tty_buffer_pos d \<le> 257 \<and>
    (\<exists>u. rx_fill bs d = Some u \<and> rx_ok u \<and> tty_buffer_pos u \<le> 513 \<and> rx_pending u = rx_pending d @ bs \<and>
      (\<not> ended \<longrightarrow>
        map_option (\<lambda>(_, e). rx_view e) (mpeg_read_thread_func env (es @ [Read_bytes bs]) mpeg_init) =
          framed_spec MPEG_PROTOCAL_FRAME_START_BYTE_ONE MPEG_PROTOCAL_FRAME_START_BYTE_TWO mpeg_stuck 0
            (on_more (parse_command env)) 0 (rx_pending d @ bs) (rx.more d)))"
proof -
  from assms(3) have run: "read_thread 3 (mpeg_check_full_command env) 0 es mpeg_init = Some (ended, d)"
    by (simp add: mpeg_read_thread_func_def)
  have "tty_buffer_pos mpeg_init \<le> int 257" by (simp add: mpeg_init_ok)
  from mpeg_rx.thread_next [OF mpeg_init_ok(1) this assms(1,2) run]
  obtain u where u: "rx_ok d" "tty_buffer_pos d \<le> int 257" "rx_fill bs d = Some u" "rx_ok u" "tty_buffer_pos u \<le> int (257 + 256)"
    "rx_pending u = rx_pending d @ bs" "rx.more u = rx.more d"
    "\<not> ended \<Longrightarrow> read_thread 3 (mpeg_check_full_command env) 0 (es @ [Read_bytes bs]) mpeg_init =
       map_option (Pair False) (mpeg_check_full_command env u)" by blast
  from mpeg_check_view [OF u(4), of env] u(6,7) have
    "map_option rx_view (mpeg_check_full_command env u) = mpeg_bytes env 0 (rx_pending d @ bs) (rx.more d)" by simp
  with u show ?thesis by (auto simp: mpeg_read_thread_func_def option.map_comp comp_def)
qed

text \<open>A frame of the largest size, 258 bytes, read but for its last byte, and then 256 bytes at once.\<close>

definition mpeg_long_frame :: bytes where
  "mpeg_long_frame = [0x4B, 0xB4, 0xFF] @ replicate 255 0"

lemma mpeg_long_frame_ok: "mpeg_frame mpeg_long_frame" "length mpeg_long_frame = 258"
  by (simp_all add: mpeg_long_frame_def framed_frame_def mpeg_stuck_def MPEG_PROTOCAL_FRAME_START_BYTE_ONE_def
      MPEG_PROTOCAL_FRAME_START_BYTE_TWO_def)

lemma mpeg_reads_part:
  assumes "rx_ok c" "rx_pending c = take n mpeg_long_frame" "n + length bs \<le> 257" "bs = take (length bs) (drop n mpeg_long_frame)"
  obtains d where "read_thread 3 (mpeg_check_full_command env) r [Read_bytes bs] c = Some (False, d)" "rx_ok d"
    "rx_pending d = take (n + length bs) mpeg_long_frame"
proof -
  have "tty_buffer_pos c = int n"
    using length_rx_pending [OF assms(1)] rx_okD(3) [OF assms(1)] assms(2,3) mpeg_long_frame_ok(2) by simp
  with assms(3) obtain u where u: "rx_fill bs c = Some u" "rx_ok u" "rx_pending u = rx_pending c @ bs"
    using rx_fill_ok [OF assms(1), of bs] by auto
  have pend: "rx_pending u = take (n + length bs) mpeg_long_frame"
    unfolding u(3) assms(2) by (subst assms(4)) (simp add: take_add)
  have "n + length bs < length mpeg_long_frame" using assms(3) mpeg_long_frame_ok(2) by simp
  from mpeg_reader.check_waits [OF mpeg_long_frame_ok(1) u(2) this pend, of env]
  obtain d where d: "mpeg_check_full_command env u = Some d" "rx_view d = rx_view u"
    by (auto simp: mpeg_check_full_command_def)
  from u d pend mpeg_check_keeps [OF u(2) d(1)] show ?thesis by (intro that [of d]) (auto simp: rx_view_def)
qed

theorem mpeg_thread_buffers_witness:
  "\<exists>d u. mpeg_read_thread_func mpeg_example_env [Read_bytes (take 256 mpeg_long_frame), Read_bytes [0]] mpeg_init = Some (False, d) \<and>
    tty_buffer_pos d = 257 \<and> rx_fill (replicate 256 0) d = Some u \<and> rx_ok u \<and> tty_buffer_pos u = 513"
proof -
  let ?es = "[Read_bytes (take 256 mpeg_long_frame), Read_bytes [0]]" and ?check = "mpeg_check_full_command mpeg_example_env"
  obtain c where c: "read_thread 3 ?check 0 [Read_bytes (take 256 mpeg_long_frame)] mpeg_init = Some (False, c)"
      "rx_ok c" "rx_pending c = take 256 mpeg_long_frame"
    using mpeg_reads_part [OF mpeg_init_ok(1), of 0 "take 256 mpeg_long_frame" mpeg_example_env 0] mpeg_init_ok(3) mpeg_long_frame_ok(2)
    by auto
  have "256 + length [0::u8] \<le> 257" "[0] = take (length [0::u8]) (drop 256 mpeg_long_frame)" by (simp_all add: mpeg_long_frame_def)
  from mpeg_reads_part [OF c(2,3) this, of mpeg_example_env 0] obtain d where
    d: "read_thread 3 ?check 0 [Read_bytes [0]] c = Some (False, d)" "rx_ok d" "rx_pending d = take (256 + length [0::u8]) mpeg_long_frame" .
  have "read_thread 3 ?check 0 ?es mpeg_init = Some (False, d)"
    using read_thread_snoc [OF c(1), of "[0]"] read_thread_snoc [of 3 ?check 0 "[]" c c "[0]"] d(1) by simp
  then have run: "mpeg_read_thread_func mpeg_example_env ?es mpeg_init = Some (False, d)" by (simp add: mpeg_read_thread_func_def)
  have "\<forall>e \<in> set ?es. fits_buf 256 e" "length (replicate 256 (0::u8)) \<le> 256" by simp_all
  from mpeg_thread_buffers [OF this run] obtain u where
    u: "rx_fill (replicate 256 0) d = Some u" "rx_ok u" "rx_pending u = rx_pending d @ replicate 256 0" by blast
  have "tty_buffer_pos d = 257" "tty_buffer_pos u = 513"
    using length_rx_pending [OF d(2)] length_rx_pending [OF u(2)] rx_okD(3) [OF d(2)] rx_okD(3) [OF u(2)] d(3) u(3) mpeg_long_frame_ok(2)
    by simp_all
  with run u show ?thesis by blast
qed

text \<open>
  C3. A stream of frames has the same effect however the kernel cuts it: reading it in any pieces of
  at most 256 bytes does what giving the commands of the frames to \<open>parse_command\<close> one after
  the other does, with the notifications of the parsed commands in the queue and nothing left in
  the buffer, or runs into undefined behaviour exactly if parsing the commands does.
\<close>

theorem mpeg_stream_equivalence:
  assumes "\<forall>f \<in> set fs. framed_frame MPEG_PROTOCAL_FRAME_START_BYTE_ONE MPEG_PROTOCAL_FRAME_START_BYTE_TWO mpeg_stuck 0 f"
    "\<forall>x \<in> set cs. length x \<le> 256" "concat cs = concat fs"
  shows "map_option (\<lambda>(ended, d). (ended, rx_pending d, mp_queue d)) (mpeg_read_thread_func env (map Read_bytes cs) mpeg_init) =
    map_option (\<lambda>d. (False, [], mp_queue d)) (parse_all (parse_command env) (map (drop 2) fs) mpeg_init)"
proof -
  have q: "mp_queue d = mp_queue e" if "rx.more d = rx.more e" for d e :: mpeg_state
    using that by (cases d, cases e) simp
  show ?thesis unfolding mpeg_read_thread_func_def mpeg_check_full_command_def
    by (rule map_option_rel [OF mpeg_reader.thread_parses [OF assms mpeg_init_ok(1,3)]]) (auto simp: left_over_def dest: q)
qed

lemma mpeg_example_frames: "\<forall>f \<in> set [[0x4B, 0xB4, 2, 0x80, 0x7E], [0x4B, 0xB4, 3, 0x85, 1, 0x77]]. mpeg_frame f"
  by (simp add: framed_frame_def mpeg_not_stuck MPEG_PROTOCAL_FRAME_START_BYTE_ONE_def MPEG_PROTOCAL_FRAME_START_BYTE_TWO_def)

theorem mpeg_stream_equivalence_witness:
  "map_option (\<lambda>(ended, d). (ended, rx_pending d, mp_queue d)) (mpeg_read_thread_func mpeg_example_env
      [Read_bytes [0x4B], Read_bytes [0xB4, 2, 0x80, 0x7E, 0x4B, 0xB4], Read_bytes [3, 0x85, 1, 0x77]] mpeg_init) =
    map_option (\<lambda>d. (False, [], mp_queue d)) (parse_all (parse_command mpeg_example_env) [[2, 0x80, 0x7E], [3, 0x85, 1, 0x77]] mpeg_init)"
  using mpeg_stream_equivalence [OF mpeg_example_frames, of "[[0x4B], [0xB4, 2, 0x80, 0x7E, 0x4B, 0xB4], [3, 0x85, 1, 0x77]]" mpeg_example_env]
  by simp

text \<open>
  C36. A stray first head byte makes the driver drop a frame. When two whole frames follow it in one
  read, the first is parsed and the second is lost: the search stays behind the stray byte although
  the second frame was moved to the front of the buffer.
\<close>

theorem mpeg_stray_byte_drops_frame:
  assumes "framed_frame MPEG_PROTOCAL_FRAME_START_BYTE_ONE MPEG_PROTOCAL_FRAME_START_BYTE_TWO mpeg_stuck 0 f"
    "framed_frame MPEG_PROTOCAL_FRAME_START_BYTE_ONE MPEG_PROTOCAL_FRAME_START_BYTE_TWO mpeg_stuck 0 g"
    "MPEG_PROTOCAL_FRAME_START_BYTE_ONE \<notin> set (tl g)"
    "x \<noteq> MPEG_PROTOCAL_FRAME_START_BYTE_ONE" "x \<noteq> MPEG_PROTOCAL_FRAME_START_BYTE_TWO"
    "rx_ok c" "rx_pending c = [MPEG_PROTOCAL_FRAME_START_BYTE_ONE, x] @ f @ g"
  shows "map_option rx_view (mpeg_check_full_command env c) =
    map_option (\<lambda>d. ([], rx.more d)) (parse_command env (pad (drop 2 f)) c)"
proof -
  let ?one = "MPEG_PROTOCAL_FRAME_START_BYTE_ONE" and ?handle = "on_more (parse_command env)"
  let ?v = "?one # x # f @ g"
  have c1: "framed_cut ?one MPEG_PROTOCAL_FRAME_START_BYTE_TWO mpeg_stuck 0 0 ?v = FSkip 1"
    using assms(5) framed_cut_stray [of "x # f @ g"] by simp
  have c2: "framed_cut ?one MPEG_PROTOCAL_FRAME_START_BYTE_TWO mpeg_stuck 0 1 ?v = FCommand (drop 2 f) g"
    using framed_cut_whole [OF assms(1), of 1 "[?one, x]" g] assms(4) by simp
  have c3: "framed_cut ?one MPEG_PROTOCAL_FRAME_START_BYTE_TWO mpeg_stuck 0 1 g = FWait []"
    using assms(3) by (simp add: framed_cut_def drop_Suc)
  have short: "length (drop 2 f) \<le> 256" using framed_frame_length [OF assms(1)] by simp
  have "map_option rx_view (mpeg_check_full_command env c) = mpeg_bytes env 0 ?v (rx.more c)"
    using mpeg_check_view [OF assms(6)] assms(7) by simp
  also have "\<dots> = do { m \<leftarrow> ?handle (pad (drop 2 f)) (rx.more c); mpeg_bytes env 1 g m }"
    unfolding framed_spec_skip [OF c1] framed_spec_command [OF c2] using short by simp
  also have "\<dots> = map_option (\<lambda>m. ([], m)) (?handle (pad (drop 2 f)) (rx.more c))"
    by (cases "?handle (pad (drop 2 f)) (rx.more c)") (use framed_spec_wait [OF c3] in simp_all)
  finally show ?thesis
    unfolding parse_command_local [OF length_pad [OF short]] by (simp add: option.map_comp comp_def rx_more_update_more)
qed

theorem mpeg_stray_byte_drops_frame_witness:
  "map_option rx_view (mpeg_check_full_command mpeg_example_env
      (mpeg_holding [0x4B, 0, 0x4B, 0xB4, 2, 0x80, 0x7E, 0x4B, 0xB4, 3, 0x85, 1, 0x77])) =
    map_option (\<lambda>d. ([], rx.more d)) (parse_command mpeg_example_env (pad [2, 0x80, 0x7E])
      (mpeg_holding [0x4B, 0, 0x4B, 0xB4, 2, 0x80, 0x7E, 0x4B, 0xB4, 3, 0x85, 1, 0x77]))"
proof -
  let ?v = "[0x4B, 0, 0x4B, 0xB4, 2, 0x80, 0x7E, 0x4B, 0xB4, 3, 0x85, 1, 0x77] :: bytes"
  have "length ?v \<le> 528" by simp
  note h = mpeg_holding_ok [OF this]
  show ?thesis
    using mpeg_stray_byte_drops_frame [of "[0x4B, 0xB4, 2, 0x80, 0x7E]" "[0x4B, 0xB4, 3, 0x85, 1, 0x77]" 0 "mpeg_holding ?v" mpeg_example_env]
      mpeg_example_frames h(1,2) by (simp add: MPEG_PROTOCAL_FRAME_START_BYTE_ONE_def MPEG_PROTOCAL_FRAME_START_BYTE_TWO_def)
qed

end
