(* ===== verification/Ipod.thy ===== *)
theory Ipod
  imports Serial
begin

text \<open>
  The protocol of the iPod, \<^verbatim>\<open>src/hardware/mx5x/libipod/ipod.cpp\<close> and
  \<^verbatim>\<open>ipodprotocal.h\<close>: \<open>parse_command\<close> turns a command into a notification,
  \<open>prepareBuffer\<close> turns a request into a frame. A frame is \<open>FF 55 length lingo command
  parameters checksum\<close>; the length does not count the checksum, which makes the bytes from the
  length on add up to 0.
\<close>

section \<open>Reports\<close>

definition IPOD_PROTOCAL_FRAME_START_BYTE_ONE :: u8 where "IPOD_PROTOCAL_FRAME_START_BYTE_ONE = 0xFF"
definition IPOD_PROTOCAL_FRAME_START_BYTE_TWO :: u8 where "IPOD_PROTOCAL_FRAME_START_BYTE_TWO = 0x55"

definition GENERAL_LINGO_TYPE :: u8 where "GENERAL_LINGO_TYPE = 0x00"
definition EXTENDE_INTERFACE_MODE_TYPE :: u8 where "EXTENDE_INTERFACE_MODE_TYPE = 0x04"

datatype ipod_report_type =
    GENERAL_ACK | GENERAL_RETURN_REMOTE_UI_MODE | EIM_ACK | EIM_RETURN_IPOD_NAME
  | EIM_RETURN_NUMBER_CATEGORIZEDDBRECORDS | EIM_RETURN_CATEGORIZEDDBRECORD | EIM_RETURN_PLAY_STATUS
  | EIM_RETURN_CURRENT_PLAYING_TRACK_INDEX | EIM_RETURN_CURRENT_PLAYING_TRACK_TITLE
  | EIM_RETURN_CURRENT_PLAYING_TRACK_ARTIST | EIM_RETURN_CURRENT_PLAYING_TRACK_ALBUM
  | EIM_PLAYSTATUS_CHANGENOTIFICATION | EIM_RETURN_SHUFFLE | EIM_RETURN_REPEAT

definition ipod_report_types :: "(u32 \<times> ipod_report_type) list" where
  "ipod_report_types =
    [(0x02, GENERAL_ACK), (0x04, GENERAL_RETURN_REMOTE_UI_MODE), (0x0001, EIM_ACK), (0x0015, EIM_RETURN_IPOD_NAME),
     (0x0019, EIM_RETURN_NUMBER_CATEGORIZEDDBRECORDS), (0x001B, EIM_RETURN_CATEGORIZEDDBRECORD),
     (0x001D, EIM_RETURN_PLAY_STATUS), (0x001F, EIM_RETURN_CURRENT_PLAYING_TRACK_INDEX),
     (0x0021, EIM_RETURN_CURRENT_PLAYING_TRACK_TITLE), (0x0023, EIM_RETURN_CURRENT_PLAYING_TRACK_ARTIST),
     (0x0025, EIM_RETURN_CURRENT_PLAYING_TRACK_ALBUM), (0x0027, EIM_PLAYSTATUS_CHANGENOTIFICATION),
     (0x002D, EIM_RETURN_SHUFFLE), (0x0030, EIM_RETURN_REPEAT)]"

record general_ack_report =
  ga_command_result :: u8
  ga_command_id :: u8
  ga_command_wait_time :: u32

record eim_ack_report =
  ea_command_result :: u8
  ea_command_id :: u8

record eim_ipod_name_report =
  in_ipod_name :: bytes
  in_length :: u8

record eim_categorized_dbrecords_report =
  cd_record_index :: u32
  cd_record_string :: bytes
  cd_length :: u8

record eim_playstatus_report =
  ep_play_status :: u8
  ep_track_current_position :: u32
  ep_track_total_time :: u32

record eim_play_change_notification_report =
  pc_play_change_type :: u8
  pc_play_value :: u32

text \<open>
  The union \<open>ipod_report_context\<close>: the member that was written last. The title, artist and
  album reports are unions themselves, of the 256 bytes of the text and its length, so each is
  these 256 bytes, and the length is the first of them. \<open>No_ipod_report\<close> is a context in which
  no member was written.
\<close>

datatype ipod_report_context =
    No_ipod_report
  | ack_report_general general_ack_report
  | remote_ui_general u8
  | ack_report_eim eim_ack_report
  | ipod_name_report eim_ipod_name_report
  | number_dbrecords_report u32
  | categorized_dbrecord_report eim_categorized_dbrecords_report
  | playstatus_report eim_playstatus_report
  | playing_track_report u32
  | playing_track_title_report bytes
  | playing_track_artist_report bytes
  | playing_track_album_report bytes
  | play_status_change_report eim_play_change_notification_report
  | shuffle_report u8
  | repeat_report u8

text \<open>The member \<open>length\<close> of the title, artist and album unions.\<close>

definition track_text_length :: "bytes \<Rightarrow> u8" where
  "track_text_length u = u ! 0"

record ipod_notification =
  ip_report_type :: u32
  ip_report_context :: ipod_report_context

section \<open>State\<close>

record ipod_state = rx +
  ip_queue :: "ipod_notification nqueue"
  ip_calls :: nat

type_synonym ipod_ext = "\<lparr>ip_queue :: ipod_notification nqueue, ip_calls :: nat\<rparr>"

text \<open>
  Per call of \<open>parse_command\<close>: what the stack held in the context and in the report type of
  \<open>my_notification\<close>, and the address \<open>malloc\<close> returns.
\<close>

record ipod_env =
  ie_stack :: "nat \<Rightarrow> nat \<Rightarrow> u8"
  ie_type :: "nat \<Rightarrow> u32"
  ie_malloc :: "nat \<Rightarrow> nat"

definition ipod_init :: ipod_state where
  "ipod_init = \<lparr>tty_buffer = replicate (MAX_BUFFER_STRING + 16) 0, tmp_buffer = replicate (MAX_BUFFER_STRING + 16) 0,
     tty_buffer_pos = 0, ip_queue = nq_init, ip_calls = 0\<rparr>"

definition push_ipod_notificaiton :: "ipod_env \<Rightarrow> nat \<Rightarrow> ipod_notification \<Rightarrow> ipod_state \<Rightarrow> ipod_state option" where
  "push_ipod_notificaiton env k n c =
     do { (ret, q) \<leftarrow> push_notification (ie_malloc env k) n (ip_queue c); Some (c\<lparr>ip_queue := q\<rparr>) }"

definition ipod_get_notification :: "u32 list \<Rightarrow> ipod_state \<Rightarrow> (int \<times> ipod_notification \<times> ipod_state) outcome" where
  "ipod_get_notification wakes c =
     (case pop_notification wakes (ip_queue c) of
        Blocked \<Rightarrow> Blocked | Fault \<Rightarrow> Fault | Done (_, n, q) \<Rightarrow> Done (0, n, c\<lparr>ip_queue := q\<rparr>))"

section \<open>Commands received\<close>

definition ipod_calc_checksum :: "bytes \<Rightarrow> nat \<Rightarrow> nat \<Rightarrow> u8 option" where
  "ipod_calc_checksum data s len = do { checksum \<leftarrow> sum_bytes data s len 0; Some (NOT checksum + 1) }"

text \<open>Four bytes, the highest first, as an unsigned number.\<close>

definition be32_at :: "bytes \<Rightarrow> nat \<Rightarrow> u32 option" where
  "be32_at command i = do {
     a \<leftarrow> rd command i; b \<leftarrow> rd command (i + 1); c \<leftarrow> rd command (i + 2); d \<leftarrow> rd command (i + 3);
     Some (push_bit 24 (ucast a) OR push_bit 16 (ucast b) OR push_bit 8 (ucast c) OR ucast d) }"

text \<open>
  The switches of \<open>parse_command\<close> on the report type, for the general lingo and for the extended
  interface mode: the context left in \<open>my_notification\<close>, or \<^term>\<open>None\<close> inside
  \<^term>\<open>Some\<close> where they return from the function. The length byte is \<open>len\<close>; a
  difference below 0 is a size that has wrapped around.
\<close>

definition ipod_general :: "bytes \<Rightarrow> u32 \<Rightarrow> ipod_report_context option option" where
  "ipod_general command report_type =
     (case map_of ipod_report_types report_type of
        Some GENERAL_ACK \<Rightarrow> do {
          r \<leftarrow> rd command 3; i \<leftarrow> rd command 4;
          t \<leftarrow> (if r = 0x6 then be32_at command 5 else Some 0);
          Some (Some (ack_report_general \<lparr>ga_command_result = r, ga_command_id = i, ga_command_wait_time = t\<rparr>)) }
      | Some GENERAL_RETURN_REMOTE_UI_MODE \<Rightarrow> do { m \<leftarrow> rd command 3; Some (Some (remote_ui_general m)) }
      | _ \<Rightarrow> Some None)"

definition ipod_track_text :: "bytes \<Rightarrow> bytes \<Rightarrow> int \<Rightarrow> bytes option" where
  "ipod_track_text stack command len = do {
     u \<leftarrow> wr stack 0 (word_of_int (len - 3));
     memcpy_at u 0 command 4 (len - 3) }"

definition ipod_record :: "bytes \<Rightarrow> bytes \<Rightarrow> int \<Rightarrow> ipod_report_context option" where
  "ipod_record stack command len = do {
     i \<leftarrow> be32_at command 4;
     s \<leftarrow> memset_at stack 0 0 256;
     s \<leftarrow> memcpy_at s 0 command 8 (len - 7);
     Some (categorized_dbrecord_report \<lparr>cd_record_index = i, cd_record_string = s, cd_length = word_of_int (len - 7)\<rparr>) }"

definition ipod_change :: "bytes \<Rightarrow> ipod_report_context option option" where
  "ipod_change command = do {
     t \<leftarrow> rd command 4;
     if t = 0x06 then do { v \<leftarrow> rd command 5; Some (Some (play_status_change_report \<lparr>pc_play_change_type = t, pc_play_value = ucast v\<rparr>)) }
     else if t = 0x01 then do { v \<leftarrow> be32_at command 5; Some (Some (play_status_change_report \<lparr>pc_play_change_type = t, pc_play_value = v\<rparr>)) }
     else Some None }"

definition ipod_extended :: "bytes \<Rightarrow> bytes \<Rightarrow> int \<Rightarrow> u32 \<Rightarrow> ipod_report_context option option" where
  "ipod_extended stack command len report_type =
     (case map_of ipod_report_types report_type of
        Some EIM_ACK \<Rightarrow> do {
          r \<leftarrow> rd command 4; h \<leftarrow> rd command 5; l \<leftarrow> rd command 6;
          Some (Some (ack_report_eim \<lparr>ea_command_result = r,
            ea_command_id = ucast (push_bit 8 (ucast h) OR ucast l :: u32)\<rparr>)) }
      | Some EIM_RETURN_IPOD_NAME \<Rightarrow> do {
          s \<leftarrow> memcpy_at stack 0 command 4 (len - 3);
          Some (Some (ipod_name_report \<lparr>in_ipod_name = s, in_length = word_of_int (len - 3)\<rparr>)) }
      | Some EIM_RETURN_NUMBER_CATEGORIZEDDBRECORDS \<Rightarrow> do { n \<leftarrow> be32_at command 4; Some (Some (number_dbrecords_report n)) }
      | Some EIM_RETURN_CATEGORIZEDDBRECORD \<Rightarrow> do { r \<leftarrow> ipod_record stack command len; Some (Some r) }
      | Some EIM_RETURN_PLAY_STATUS \<Rightarrow> do {
          t \<leftarrow> be32_at command 4; p \<leftarrow> be32_at command 8; s \<leftarrow> rd command 12;
          Some (Some (playstatus_report \<lparr>ep_play_status = s, ep_track_current_position = p, ep_track_total_time = t\<rparr>)) }
      | Some EIM_RETURN_CURRENT_PLAYING_TRACK_INDEX \<Rightarrow> do { i \<leftarrow> be32_at command 4; Some (Some (playing_track_report i)) }
      | Some EIM_RETURN_CURRENT_PLAYING_TRACK_TITLE \<Rightarrow> do {
          u \<leftarrow> ipod_track_text stack command len; Some (Some (playing_track_title_report u)) }
      | Some EIM_RETURN_CURRENT_PLAYING_TRACK_ARTIST \<Rightarrow> do {
          u \<leftarrow> ipod_track_text stack command len; Some (Some (playing_track_artist_report u)) }
      | Some EIM_RETURN_CURRENT_PLAYING_TRACK_ALBUM \<Rightarrow> do {
          u \<leftarrow> ipod_track_text stack command len; Some (Some (playing_track_album_report u)) }
      | Some EIM_PLAYSTATUS_CHANGENOTIFICATION \<Rightarrow> ipod_change command
      | Some EIM_RETURN_SHUFFLE \<Rightarrow> do { b \<leftarrow> rd command 4; Some (Some (shuffle_report b)) }
      | Some EIM_RETURN_REPEAT \<Rightarrow> do { b \<leftarrow> rd command 4; Some (Some (repeat_report b)) }
      | _ \<Rightarrow> Some None)"

text \<open>
  The notification made of a command. For a lingo that is neither of the two, \<open>my_notification\<close>
  is pushed as it was on the stack.
\<close>

definition ipod_switch :: "ipod_env \<Rightarrow> nat \<Rightarrow> bytes \<Rightarrow> int \<Rightarrow> ipod_notification option option" where
  "ipod_switch env k command len =
     (let stack = map (ie_stack env k) [0..<256];
          notification = (\<lambda>t r. map_option (\<lambda>x. \<lparr>ip_report_type = t, ip_report_context = x\<rparr>) r) in
      do {
        interface_id \<leftarrow> rd command 1;
        if interface_id = GENERAL_LINGO_TYPE then do {
          b \<leftarrow> rd command 2;
          r \<leftarrow> ipod_general command (ucast b);
          Some (notification (ucast b) r) }
        else if interface_id = EXTENDE_INTERFACE_MODE_TYPE then do {
          h \<leftarrow> rd command 2; l \<leftarrow> rd command 3;
          let t = push_bit 8 (ucast h) OR ucast l;
          r \<leftarrow> ipod_extended stack command len t;
          Some (notification t r) }
        else Some (Some \<lparr>ip_report_type = ie_type env k, ip_report_context = No_ipod_report\<rparr>) })"

definition ipod_parse_command :: "ipod_env \<Rightarrow> bytes \<Rightarrow> ipod_state \<Rightarrow> ipod_state option" where
  "ipod_parse_command env command c =
     (let k = ip_calls c; c = c\<lparr>ip_calls := k + 1\<rparr> in
      do {
        lenb \<leftarrow> rd command 0;
        let len = uint lenb;
        checksum \<leftarrow> ipod_calc_checksum command 0 (nat (len + 1));
        given \<leftarrow> rd command (nat (len + 1));
        r \<leftarrow> ipod_switch env k command len;
        (case r of
           None \<Rightarrow> Some c
         | Some n \<Rightarrow> push_ipod_notificaiton env k n c)
      })"

section \<open>Requests sent\<close>

datatype ipod_command_type =
    GENERAL_IDENTIFY | GENERAL_REQUEST_REMOTEUIMODE | GENERAL_ENTER_REMOTEUIMODE | GENERAL_EXIT_REMOTEUIMODE
  | EIM_REQUEST_IPODNAME | EIM_RESET_DBSELECTION | EIM_SELECTDBRECORD | EIM_GET_NUMBERCATEGORIZEDDBRECORDS
  | EIM_RETRIVE_CATEGORIZEDDATABASERECORDS | EIM_GET_PLAYSTATUS | EIM_GET_CURRENTPLAYINGTRACKINDEX
  | EIM_GET_INDEXEDPLAYINGTRACKTITLE | EIM_GET_INDEXEDPLAYINGTRACKARTIST | EIM_GET_INDEXEDPLAYINGTRACKALBUM
  | EIM_SET_PLAYSTATUSCHANGENOTIFICATION | EIM_PLAY_CURRENTSELECTION | EIM_PLAY_CONTROL | EIM_GET_SHUFFLE
  | EIM_SET_SHUFFLE | EIM_GET_REPEAT | EIM_SET_REPEAT

fun ipod_command_code :: "ipod_command_type \<Rightarrow> u32" where
  "ipod_command_code GENERAL_IDENTIFY = 0x01"
| "ipod_command_code GENERAL_REQUEST_REMOTEUIMODE = 0x03"
| "ipod_command_code GENERAL_ENTER_REMOTEUIMODE = 0x05"
| "ipod_command_code GENERAL_EXIT_REMOTEUIMODE = 0x06"
| "ipod_command_code EIM_REQUEST_IPODNAME = 0x0014"
| "ipod_command_code EIM_RESET_DBSELECTION = 0x0016"
| "ipod_command_code EIM_SELECTDBRECORD = 0x0017"
| "ipod_command_code EIM_GET_NUMBERCATEGORIZEDDBRECORDS = 0x0018"
| "ipod_command_code EIM_RETRIVE_CATEGORIZEDDATABASERECORDS = 0x001A"
| "ipod_command_code EIM_GET_PLAYSTATUS = 0x001C"
| "ipod_command_code EIM_GET_CURRENTPLAYINGTRACKINDEX = 0x001E"
| "ipod_command_code EIM_GET_INDEXEDPLAYINGTRACKTITLE = 0x0020"
| "ipod_command_code EIM_GET_INDEXEDPLAYINGTRACKARTIST = 0x0022"
| "ipod_command_code EIM_GET_INDEXEDPLAYINGTRACKALBUM = 0x0024"
| "ipod_command_code EIM_SET_PLAYSTATUSCHANGENOTIFICATION = 0x0026"
| "ipod_command_code EIM_PLAY_CURRENTSELECTION = 0x0028"
| "ipod_command_code EIM_PLAY_CONTROL = 0x0029"
| "ipod_command_code EIM_GET_SHUFFLE = 0x002C"
| "ipod_command_code EIM_SET_SHUFFLE = 0x002E"
| "ipod_command_code EIM_GET_REPEAT = 0x002F"
| "ipod_command_code EIM_SET_REPEAT = 0x0031"

text \<open>
  The union \<open>ipod_command_context\<close> is the 12 bytes of its largest member,
  \<open>categorized_dbrecords_command\<close>: a byte, three bytes of padding, and two numbers in the
  little-endian order of the processor. The members' fields are bytes and numbers at offsets.
\<close>

record ipod_command =
  ip_command_type :: ipod_command_type
  ip_command_context :: bytes

definition le32_at :: "bytes \<Rightarrow> nat \<Rightarrow> u32 option" where
  "le32_at context i = do {
     a \<leftarrow> rd context i; b \<leftarrow> rd context (i + 1); c \<leftarrow> rd context (i + 2); d \<leftarrow> rd context (i + 3);
     Some (ucast a OR push_bit 8 (ucast b) OR push_bit 16 (ucast c) OR push_bit 24 (ucast d)) }"

text \<open>The four bytes of a number, the highest first.\<close>

definition be32 :: "u32 \<Rightarrow> bytes" where
  "be32 n = [ucast (drop_bit 24 (n AND 0xFF000000)), ucast (drop_bit 16 (n AND 0x00FF0000)),
     ucast (drop_bit 8 (n AND 0x0000FF00)), ucast (n AND 0x000000FF)]"

text \<open>
  The two switches of \<open>prepareBuffer\<close>: the bytes written behind the length, and the length. The
  inner one gives what follows the command in the extended interface mode.
\<close>

definition ipod_params :: "ipod_command \<Rightarrow> (bytes \<times> u8) option" where
  "ipod_params cmd =
     (let context = ip_command_context cmd; track = do { i \<leftarrow> le32_at context 0; Some (be32 i, 0x07) } in
      case ip_command_type cmd of
        EIM_SELECTDBRECORD \<Rightarrow> do { t \<leftarrow> rd context 0; i \<leftarrow> le32_at context 4; Some (t # be32 i, 0x08) }
      | EIM_GET_NUMBERCATEGORIZEDDBRECORDS \<Rightarrow> do { t \<leftarrow> rd context 0; Some ([t], 0x04) }
      | EIM_RETRIVE_CATEGORIZEDDATABASERECORDS \<Rightarrow> do {
          t \<leftarrow> rd context 0; i \<leftarrow> le32_at context 4; n \<leftarrow> le32_at context 8; Some (t # be32 i @ be32 n, 0x0C) }
      | EIM_GET_INDEXEDPLAYINGTRACKTITLE \<Rightarrow> track
      | EIM_GET_INDEXEDPLAYINGTRACKARTIST \<Rightarrow> track
      | EIM_GET_INDEXEDPLAYINGTRACKALBUM \<Rightarrow> track
      | EIM_SET_PLAYSTATUSCHANGENOTIFICATION \<Rightarrow> Some ([0x1], 0x04)
      | EIM_PLAY_CURRENTSELECTION \<Rightarrow> track
      | EIM_PLAY_CONTROL \<Rightarrow> do { b \<leftarrow> rd context 0; Some ([b], 0x04) }
      | EIM_SET_SHUFFLE \<Rightarrow> do { m \<leftarrow> rd context 0; r \<leftarrow> rd context 1; Some ([m, r], 0x05) }
      | EIM_SET_REPEAT \<Rightarrow> do { m \<leftarrow> rd context 0; r \<leftarrow> rd context 1; Some ([m, r], 0x05) }
      | _ \<Rightarrow> Some ([], 0x03))"

definition ipod_body :: "ipod_command \<Rightarrow> (bytes \<times> u8) option" where
  "ipod_body cmd =
     (let code = ipod_command_code (ip_command_type cmd);
          remote_ui = Some ([GENERAL_LINGO_TYPE, ucast code], 0x02) in
      case ip_command_type cmd of
        GENERAL_IDENTIFY \<Rightarrow> Some ([GENERAL_LINGO_TYPE, ucast code, EXTENDE_INTERFACE_MODE_TYPE], 0x03)
      | GENERAL_REQUEST_REMOTEUIMODE \<Rightarrow> remote_ui
      | GENERAL_ENTER_REMOTEUIMODE \<Rightarrow> remote_ui
      | GENERAL_EXIT_REMOTEUIMODE \<Rightarrow> remote_ui
      | _ \<Rightarrow> do {
          (ps, len) \<leftarrow> ipod_params cmd;
          Some ([EXTENDE_INTERFACE_MODE_TYPE, ucast (drop_bit 8 (code AND 0x0000FF00)), ucast (code AND 0x000000FF)] @ ps, len) })"

definition ipod_prepareBuffer :: "bytes \<Rightarrow> ipod_command \<Rightarrow> (int \<times> bytes) option" where
  "ipod_prepareBuffer buffer cmd =
     do {
       buffer \<leftarrow> put_bytes buffer 0 [0xFF, 0x55];
       (body, len) \<leftarrow> ipod_body cmd;
       buffer \<leftarrow> put_bytes buffer 3 body;
       buffer \<leftarrow> wr buffer 2 len;
       checksum \<leftarrow> ipod_calc_checksum buffer 2 (nat (uint len + 1));
       buffer \<leftarrow> wr buffer (3 + length body) checksum;
       Some (uint len + 4, buffer)
     }"

text \<open>What \<open>ipod_send_command\<close> does to the port, in order.\<close>

datatype port_action = Tcflush | Write bytes | Sleep nat

definition ipod_send_command :: "ipod_command \<Rightarrow> (int \<times> port_action list) option" where
  "ipod_send_command cmd =
     do {
       (n, command_buffer) \<leftarrow> ipod_prepareBuffer (replicate 256 0) cmd;
       let len = unat (word_of_int n :: u8);
       let identify = ip_command_type cmd = GENERAL_IDENTIFY;
       let first = (if identify then [Tcflush, Write [0xFF], Sleep 1] else []);
       let last = (if identify then [Sleep 1] else []);
       if len \<le> length command_buffer then Some (0, first @ [Write (take len command_buffer)] @ last) else None
     }"

section \<open>Facts\<close>

lemma ipod_calc_checksum_eq:
  "s + n \<le> length a \<Longrightarrow> ipod_calc_checksum a s n = Some (- sum_list (take n (drop s a)))"
  by (simp add: ipod_calc_checksum_def sum_bytes_eq minus_eq_not_plus_1)

lemma be32_at_ok: "i + 3 < length a \<Longrightarrow> \<exists>x. be32_at a i = Some x"
  by (simp add: be32_at_def rd_def)

lemma le32_at_ok: "i + 3 < length a \<Longrightarrow> \<exists>x. le32_at a i = Some x"
  by (simp add: le32_at_def rd_def)

lemma length_be32 [simp]: "length (be32 n) = 4"
  by (simp add: be32_def)

text \<open>A number written byte by byte is read back.\<close>

lemma be32_masks: "(0xFF000000 :: u32) = push_bit 24 (mask 8)" "(0x00FF0000 :: u32) = push_bit 16 (mask 8)"
    "(0x0000FF00 :: u32) = push_bit 8 (mask 8)" "(0x000000FF :: u32) = mask 8"
  by (simp_all add: mask_eq_exp_minus_1 push_bit_eq_mult)

lemma be32_join: "push_bit 24 (ucast (ucast (drop_bit 24 (n AND 0xFF000000)) :: u8)) OR
      push_bit 16 (ucast (ucast (drop_bit 16 (n AND 0x00FF0000)) :: u8)) OR
      push_bit 8 (ucast (ucast (drop_bit 8 (n AND 0x0000FF00)) :: u8)) OR ucast (ucast (n AND 0x000000FF) :: u8) = (n :: u32)"
proof (rule bit_word_eqI)
  fix k assume k: "k < LENGTH(32)"
  consider "k < 8" | "8 \<le> k" "k < 16" | "16 \<le> k" "k < 24" | "24 \<le> k" "k < 32" using k by fastforce
  then show "bit (push_bit 24 (ucast (ucast (drop_bit 24 (n AND 0xFF000000)) :: u8)) OR
      push_bit 16 (ucast (ucast (drop_bit 16 (n AND 0x00FF0000)) :: u8)) OR
      push_bit 8 (ucast (ucast (drop_bit 8 (n AND 0x0000FF00)) :: u8)) OR ucast (ucast (n AND 0x000000FF) :: u8) :: u32) k = bit n k"
    unfolding be32_masks by cases (auto simp: bit_simps)
qed
lemma push_ipod_None: "push_ipod_notificaiton env k n c = None \<longleftrightarrow> ie_malloc env k = 0"
  by (simp add: push_ipod_notificaiton_def push_notification_def Let_def)

text \<open>The lengths a request's writes and its length byte agree on.\<close>

lemma ipod_body_ok:
  assumes "length (ip_command_context cmd) = 12"
  obtains body where "ipod_body cmd = Some (body, of_nat (length body))" "2 \<le> length body" "length body \<le> 12"
proof -
  have r: "rd (ip_command_context cmd) 0 = Some (ip_command_context cmd ! 0)" "rd (ip_command_context cmd) 1 = Some (ip_command_context cmd ! 1)"
    using assms by (simp_all add: rd_def)
  obtain x y z where l: "le32_at (ip_command_context cmd) 0 = Some x" "le32_at (ip_command_context cmd) 4 = Some y"
      "le32_at (ip_command_context cmd) 8 = Some z"
    using le32_at_ok [of 0 "ip_command_context cmd"] le32_at_ok [of 4 "ip_command_context cmd"]
      le32_at_ok [of 8 "ip_command_context cmd"] assms by auto
  have "\<exists>body. ipod_body cmd = Some (body, of_nat (length body)) \<and> 2 \<le> length body \<and> length body \<le> 12"
    by (cases "ip_command_type cmd") (simp_all add: ipod_body_def ipod_params_def Let_def r r [simplified] l)
  then show thesis using that by blast
qed

text \<open>Which commands lead outside an object, and which are delivered.\<close>

definition ipod_report_code :: "bytes \<Rightarrow> u32" where
  "ipod_report_code command = push_bit 8 (ucast (command ! 2)) OR ucast (command ! 3)"

definition ipod_bad_length :: "bytes \<Rightarrow> int \<Rightarrow> bool" where
  "ipod_bad_length command len = (command ! 1 = EXTENDE_INTERFACE_MODE_TYPE \<and>
     (ipod_report_code command \<in> {0x15, 0x21, 0x23, 0x25} \<and> len < 3 \<or> ipod_report_code command = 0x1B \<and> len < 7))"

definition ipod_delivered :: "bytes \<Rightarrow> bool" where
  "ipod_delivered command =
     (if command ! 1 = GENERAL_LINGO_TYPE then command ! 2 \<in> {0x02, 0x04}
      else if command ! 1 = EXTENDE_INTERFACE_MODE_TYPE then
        ipod_report_code command \<in> {0x01, 0x15, 0x19, 0x1B, 0x1D, 0x1F, 0x21, 0x23, 0x25, 0x2D, 0x30} \<or>
        ipod_report_code command = 0x27 \<and> command ! 4 \<in> {0x01, 0x06}
      else True)"

lemma ipod_track_text_None:
  "length a = 256 \<Longrightarrow> length stack = 256 \<Longrightarrow> len \<le> 254 \<Longrightarrow> ipod_track_text stack a len = None \<longleftrightarrow> len < 3"
  by (auto simp: ipod_track_text_def wr_def memcpy_at_def)

lemma ipod_name_None:
  "length a = 256 \<Longrightarrow> length stack = 256 \<Longrightarrow> len \<le> 254 \<Longrightarrow> memcpy_at stack 0 a 4 (len - 3) = None \<longleftrightarrow> len < 3"
  by (auto simp: memcpy_at_def)

lemma ipod_record_None:
  "length a = 256 \<Longrightarrow> length stack = 256 \<Longrightarrow> len \<le> 254 \<Longrightarrow> ipod_record stack a len = None \<longleftrightarrow> len < 7"
  using be32_at_ok [of 4 a] by (auto simp: ipod_record_def memset_at_def memcpy_at_def)

lemma rd_256: "length a = 256 \<Longrightarrow> i < 256 \<Longrightarrow> rd a i = Some (a ! i)"
  by (simp add: rd_def)

lemma be32_at_256: "length a = 256 \<Longrightarrow> i < 253 \<Longrightarrow>
  be32_at a i = Some (push_bit 24 (ucast (a ! i)) OR push_bit 16 (ucast (a ! (i + 1))) OR push_bit 8 (ucast (a ! (i + 2))) OR ucast (a ! (i + 3)))"
  by (simp add: be32_at_def rd_def)

lemmas ipod_reads = rd_256 rd_256 [where i = "Suc 0"] be32_at_256 ipod_track_text_None ipod_name_None ipod_record_None
  bind_eq_None_conv bind_eq_Some_conv

lemma ipod_extended_cases:
  assumes "length command = 256" "length stack = 256" "len \<le> 254"
  shows "(ipod_extended stack command len t = None \<longleftrightarrow> t \<in> {0x15, 0x21, 0x23, 0x25} \<and> len < 3 \<or> t = 0x1B \<and> len < 7) \<and>
    (\<forall>x. ipod_extended stack command len t = Some (Some x) \<longrightarrow>
      t \<in> {0x01, 0x15, 0x19, 0x1B, 0x1D, 0x1F, 0x21, 0x23, 0x25, 0x2D, 0x30} \<or> t = 0x27 \<and> command ! 4 \<in> {0x01, 0x06}) \<and>
    (ipod_extended stack command len t = Some None \<longrightarrow>
      \<not> (t \<in> {0x01, 0x15, 0x19, 0x1B, 0x1D, 0x1F, 0x21, 0x23, 0x25, 0x2D, 0x30} \<or> t = 0x27 \<and> command ! 4 \<in> {0x01, 0x06}))"
proof (cases "map_of ipod_report_types t")
  case None
  then have "t \<notin> set (map fst ipod_report_types)" by (simp add: map_of_eq_None_iff)
  then show ?thesis using None by (simp add: ipod_extended_def ipod_report_types_def)
next
  case (Some r)
  from map_of_SomeD [OF this] have "(t, r) \<in> set ipod_report_types" .
  then show ?thesis unfolding ipod_extended_def Some
    by (auto simp: ipod_report_types_def ipod_change_def ipod_reads assms split: if_splits)
qed

lemma ipod_general_cases:
  assumes "length command = 256"
  shows "ipod_general command (ucast b) \<noteq> None"
    and "ipod_general command (ucast b) = Some None \<longleftrightarrow> b \<notin> {0x02, 0x04 :: u8}"
proof -
  have uc: "ucast b = (2 :: u32) \<longleftrightarrow> b = 2" "ucast b = (4 :: u32) \<longleftrightarrow> b = 4"
    using byte_range(1) [of b] by (auto simp: word_uint_eq_iff unsigned_ucast_eq take_bit_eq_mod mod_pos_pos_trivial)
  have "ipod_general command (ucast b) \<noteq> None \<and> (ipod_general command (ucast b) = Some None \<longleftrightarrow> b \<notin> {0x02, 0x04 :: u8})"
    by (auto simp: ipod_general_def ipod_report_types_def uc ipod_reads assms split: if_splits)
  then show "ipod_general command (ucast b) \<noteq> None" "ipod_general command (ucast b) = Some None \<longleftrightarrow> b \<notin> {0x02, 0x04 :: u8}" by auto
qed

lemma ipod_switch_cases:
  assumes command: "length command = 256" and len: "len \<le> 254"
  shows "ipod_switch env k command len = None \<longleftrightarrow> ipod_bad_length command len"
    and "ipod_switch env k command len = Some (Some n) \<Longrightarrow> ipod_delivered command"
    and "ipod_switch env k command len = Some None \<Longrightarrow> \<not> ipod_delivered command"
proof -
  let ?stack = "map (ie_stack env k) [0..<256]"
  have lingo: "GENERAL_LINGO_TYPE \<noteq> EXTENDE_INTERFACE_MODE_TYPE" by (simp add: GENERAL_LINGO_TYPE_def EXTENDE_INTERFACE_MODE_TYPE_def)
  have r: "rd command 1 = Some (command ! 1)" "rd command 2 = Some (command ! 2)" "rd command 3 = Some (command ! 3)"
    using command by (simp_all add: rd_def)
  note general = ipod_general_cases [OF command, of "command ! 2"]
  note extended = ipod_extended_cases [OF command _ len, of ?stack "ipod_report_code command"]
  have "(ipod_switch env k command len = None \<longleftrightarrow> ipod_bad_length command len) \<and>
    (\<forall>n. ipod_switch env k command len = Some (Some n) \<longrightarrow> ipod_delivered command) \<and>
    (ipod_switch env k command len = Some None \<longrightarrow> \<not> ipod_delivered command)"
  proof (cases "command ! 1 = EXTENDE_INTERFACE_MODE_TYPE")
    case True
    then have "ipod_switch env k command len =
        map_option (map_option (\<lambda>x. \<lparr>ip_report_type = ipod_report_code command, ip_report_context = x\<rparr>))
          (ipod_extended ?stack command len (ipod_report_code command))"
      using lingo r by (auto simp: ipod_switch_def Let_def ipod_report_code_def map_option_case split: bind_splits option.splits)
    with True extended lingo show ?thesis by (auto simp: ipod_bad_length_def ipod_delivered_def)
  next
    case False
    then show ?thesis using lingo r general
      by (auto simp: ipod_switch_def Let_def ipod_bad_length_def ipod_delivered_def split: bind_splits if_splits)
  qed
  then show "ipod_switch env k command len = None \<longleftrightarrow> ipod_bad_length command len"
    and "ipod_switch env k command len = Some (Some n) \<Longrightarrow> ipod_delivered command"
    and "ipod_switch env k command len = Some None \<Longrightarrow> \<not> ipod_delivered command" by auto
qed

lemma ipod_parse_command_eq:
  assumes "length command = 256"
  shows "ipod_parse_command env command c =
    (if unat (command ! 0) = 255 then None
     else case ipod_switch env (ip_calls c) command (uint (command ! 0)) of
       None \<Rightarrow> None
     | Some None \<Rightarrow> Some (c\<lparr>ip_calls := Suc (ip_calls c)\<rparr>)
     | Some (Some n) \<Rightarrow> push_ipod_notificaiton env (ip_calls c) n (c\<lparr>ip_calls := Suc (ip_calls c)\<rparr>))"
proof -
  obtain l where l_def: "l = unat (command ! 0)" and l1: "uint (command ! 0) = int l" by simp
  have l: "uint (command ! 0) = int l" "nat (int l + 1) = Suc l" "l < 256"
    using l1 byte_range(1) [of "command ! 0"] by linarith+
  have r: "rd command 0 = Some (command ! 0)" using assms by (simp add: rd_def)
  have s: "\<exists>d. ipod_calc_checksum command 0 (Suc l) = Some d" using l(3) assms by (simp add: ipod_calc_checksum_eq)
  show ?thesis
  proof (cases "l = 255")
    case True
    then have "rd command (Suc l) = None" using assms by (simp add: rd_def)
    then show ?thesis using True s unfolding ipod_parse_command_def Let_def r bind.bind_lunit l(1,2) l_def [symmetric]
      by (auto simp: bind_eq_None_conv)
  next
    case False
    then have "\<exists>b. rd command (Suc l) = Some b" using assms l(3) by (simp add: rd_def)
    then show ?thesis using False s unfolding ipod_parse_command_def Let_def r bind.bind_lunit l(1,2) l_def [symmetric]
      by (auto split: option.split)
  qed
qed

section \<open>Properties of the protocol\<close>

text \<open>
  C30. Exactly when handling a command of the iPod runs into undefined behaviour, for the 256 bytes
  \<open>check_full_command\<close> passes: a length of 255, with which the checksum lies behind the command;
  a name or track report of fewer than three bytes or a record of fewer than seven, whose size wraps
  around; or a delivered report for which \<open>malloc\<close> returns null.
\<close>

theorem ipod_parse_fault_iff:
  assumes "length command = 256"
  shows "ipod_parse_command env command c = None \<longleftrightarrow>
    unat (command ! 0) = 255 \<or> ipod_bad_length command (uint (command ! 0)) \<or>
    ipod_delivered command \<and> ie_malloc env (ip_calls c) = 0"
proof (cases "unat (command ! 0) = 255")
  case False
  moreover have "uint (command ! 0) = int (unat (command ! 0))" by simp
  ultimately have "uint (command ! 0) \<le> 254" using byte_range(1) [of "command ! 0"] by linarith
  from ipod_switch_cases [OF assms this, of env "ip_calls c"] False show ?thesis
    by (auto simp: ipod_parse_command_eq [OF assms] push_ipod_None split: option.split)
qed (simp add: ipod_parse_command_eq [OF assms])

definition ipod_example_env :: ipod_env where
  "ipod_example_env = \<lparr>ie_stack = \<lambda>_ _. 0, ie_type = \<lambda>_. 0, ie_malloc = \<lambda>_. 1\<rparr>"

theorem ipod_parse_fault_iff_witness:
  "ipod_parse_command ipod_example_env ([2, 4, 0, 0x15] @ replicate 252 0) ipod_init = None"
  by (subst ipod_parse_fault_iff)
    (simp_all add: ipod_bad_length_def ipod_report_code_def EXTENDE_INTERFACE_MODE_TYPE_def numeral_3_eq_3)

text \<open>
  The frame of a request, and what the writes of \<open>prepareBuffer\<close> leave in its buffer.
\<close>

definition ipod_frame_of :: "bytes \<Rightarrow> bytes" where
  "ipod_frame_of body = (let rest = of_nat (length body) # body in [0xFF, 0x55] @ rest @ [- sum_list rest])"

lemma ipod_prepareBuffer_eq:
  assumes "ipod_body cmd = Some (body, of_nat (length body))" "length body \<le> 12"
  shows "ipod_prepareBuffer (replicate 256 0) cmd =
    Some (int (length body) + 4, ipod_frame_of body @ replicate (252 - length body) 0)"
proof -
  let ?l = "of_nat (length body) :: u8" and ?z = "\<lambda>n. replicate n 0 :: bytes"
  obtain n where n: "n = length body" by simp
  have l: "uint ?l = int n" "nat (int n + 1) = n + 1"
    using assms(2) n by (simp_all add: unsigned_of_nat take_bit_nat_eq_self)
  have r: "?z 256 = [0, 0, 0] @ ?z 253" by (simp flip: replicate_Suc add: numeral_eq_Suc)
  have w1: "put_bytes (?z 256) 0 [0xFF, 0x55] = Some ([0xFF, 0x55, 0] @ ?z 253)" unfolding r by (simp add: wr_def)
  have w2: "put_bytes ([0xFF, 0x55, 0] @ ?z 253) 3 body = Some ([0xFF, 0x55, 0] @ body @ ?z (253 - n))"
    using assms(2) n by (subst put_bytes_eq) (simp_all add: drop_Cons')
  have w3: "wr ([0xFF, 0x55, 0] @ body @ ?z (253 - n)) 2 ?l = Some ([0xFF, 0x55, ?l] @ body @ ?z (253 - n))"
    using assms(2) by (simp add: wr_def)
  have c: "ipod_calc_checksum ([0xFF, 0x55, ?l] @ body @ ?z (253 - n)) 2 (n + 1) = Some (- sum_list (?l # body))"
    using assms(2) n by (subst ipod_calc_checksum_eq) simp_all
  have "253 - n = Suc (252 - n)" using assms(2) n by simp
  then have w4: "wr ([0xFF, 0x55, ?l] @ body @ ?z (253 - n)) (3 + length body) x = Some ([0xFF, 0x55, ?l] @ body @ [x] @ ?z (252 - n))" for x
    using assms(2) n by (simp add: wr_def list_update_append)
  show ?thesis unfolding ipod_prepareBuffer_def w1 assms(1) bind.bind_lunit prod.case w2 w3 l c w4
    by (simp add: ipod_frame_of_def Let_def n)
qed

lemma ipod_frame_of_length: "length (ipod_frame_of body) = length body + 4"
  by (simp add: ipod_frame_of_def)

lemma ipod_send_command_eq:
  assumes "ipod_body cmd = Some (body, of_nat (length body))" "length body \<le> 12"
  shows "ipod_send_command cmd = Some (0,
    if ip_command_type cmd = GENERAL_IDENTIFY then [Tcflush, Write [0xFF], Sleep 1, Write (ipod_frame_of body), Sleep 1]
    else [Write (ipod_frame_of body)])"
proof -
  have "unat (of_nat (length body + 4) :: u8) = length body + 4"
    using assms(2) by (simp add: unsigned_of_nat take_bit_nat_eq_self del: of_nat_add)
  then have "unat (word_of_int (int (length body) + 4) :: u8) = length body + 4" by simp
  then show ?thesis using ipod_frame_of_length [of body] assms(2)
    by (simp add: ipod_send_command_def ipod_prepareBuffer_eq [OF assms] Let_def)
qed

end
