(* ===== verification/Ipod_Delivery.thy ===== *)
theory Ipod_Delivery
  imports Ipod Framed_Reader
begin

text \<open>
  The read thread of the iPod driver, \<open>check_full_command\<close> and \<open>read_thread_func\<close> of
  \<^verbatim>\<open>src/hardware/mx5x/libipod/ipod.cpp\<close>: what it does with a stream of frames, what a
  frame of length 0 does to it, and that it reads back the frames the driver itself sends.
\<close>

section \<open>The code\<close>

text \<open>A length of 0, the mark of the large packet format, makes the function return with nothing consumed.\<close>

definition ipod_stuck :: "int \<Rightarrow> bool" where
  "ipod_stuck len = (len = 0)"

definition ipod_check_full_command :: "ipod_env \<Rightarrow> ipod_state \<Rightarrow> ipod_state option" where
  "ipod_check_full_command env =
     framed_check IPOD_PROTOCAL_FRAME_START_BYTE_ONE IPOD_PROTOCAL_FRAME_START_BYTE_TWO ipod_stuck 1 (ipod_parse_command env)"

definition ipod_read_thread_func :: "ipod_env \<Rightarrow> read_event list \<Rightarrow> ipod_state \<Rightarrow> (bool \<times> ipod_state) option" where
  "ipod_read_thread_func env = read_thread 3 (ipod_check_full_command env) 0"

section \<open>What it does on bytes\<close>

lemma ipod_parse_command_local:
  assumes "length command = 256"
  shows "ipod_parse_command env command c =
    map_option (\<lambda>m. rx.more_update (\<lambda>_. m) c) (on_more (ipod_parse_command env) command (rx.more c))"
  unfolding on_more_def ipod_parse_command_eq [OF assms]
  by (cases c) (auto simp: push_ipod_notificaiton_def push_notification_def Let_def split: option.split)

lemmas ipod_heads = IPOD_PROTOCAL_FRAME_START_BYTE_ONE_def IPOD_PROTOCAL_FRAME_START_BYTE_TWO_def

interpretation ipod_reader: framed_stream IPOD_PROTOCAL_FRAME_START_BYTE_ONE IPOD_PROTOCAL_FRAME_START_BYTE_TWO ipod_stuck 1
  "ipod_parse_command env" "on_more (ipod_parse_command env)" for env
  by unfold_locales (simp_all add: ipod_parse_command_local ipod_heads)



lemma ipod_init_ok: "rx_ok ipod_init" "tty_buffer_pos ipod_init = 0" "rx_pending ipod_init = []"
  by (simp_all add: ipod_init_def rx_ok_def rx_pending_def)

section \<open>Properties\<close>

text \<open>
  C12. A stream of iPod frames has the same effect however the kernel cuts it: reading it in any
  pieces of at most 256 bytes does what giving the commands of the frames to \<open>parse_command\<close>
  one after the other does, and undefined behaviour occurs exactly if parsing the commands has it
  (a command of length 255 does not fit into \<open>command\<close>). At most the last checksum is left in
  the buffer, and only if it looks like a head byte.
\<close>

theorem ipod_stream_equivalence:
  assumes "\<forall>f \<in> set fs. framed_frame IPOD_PROTOCAL_FRAME_START_BYTE_ONE IPOD_PROTOCAL_FRAME_START_BYTE_TWO ipod_stuck 1 f"
    "\<forall>x \<in> set cs. length x \<le> 256" "concat cs = concat fs"
  shows "rel_option (\<lambda>(ended, d) e. \<not> ended \<and> ip_queue d = ip_queue e \<and> rx_pending d \<in> {[], [0xFF]})
    (ipod_read_thread_func env (map Read_bytes cs) ipod_init)
    (parse_all (ipod_parse_command env) (map (drop 2) fs) ipod_init)"
proof -
  have q: "ip_queue d = ip_queue e" if "rx.more d = rx.more e" for d e :: ipod_state
    using that by (cases d, cases e) simp
  show ?thesis unfolding ipod_read_thread_func_def ipod_check_full_command_def
    by (rule option.rel_mono_strong [OF ipod_reader.thread_parses [OF assms ipod_init_ok(1,3)]])
      (auto simp: left_over_def ipod_heads dest: q)
qed

definition ipod_example_frames :: "bytes list" where
  "ipod_example_frames = [[0xFF, 0x55, 3, 0, 4, 1, 0xF8], [0xFF, 0x55, 4, 4, 0, 0x2D, 0xCC, 0xFF], [0xFF, 0x55, 4, 4, 0, 0x30, 2, 0xC6]]"

theorem ipod_stream_equivalence_witness:
  "rel_option (\<lambda>(ended, d) e. \<not> ended \<and> ip_queue d = ip_queue e \<and> rx_pending d \<in> {[], [0xFF]})
    (ipod_read_thread_func ipod_example_env
      [Read_bytes [0xFF, 0x55, 3, 0, 4, 1], Read_bytes [0xF8, 0xFF, 0x55, 4, 4, 0, 0x2D, 0xCC, 0xFF],
       Read_bytes [0xFF, 0x55, 4, 4, 0, 0x30, 2, 0xC6]] ipod_init)
    (parse_all (ipod_parse_command ipod_example_env) (map (drop 2) ipod_example_frames) ipod_init)"
  using ipod_stream_equivalence [of ipod_example_frames
      "[[0xFF, 0x55, 3, 0, 4, 1], [0xF8, 0xFF, 0x55, 4, 4, 0, 0x2D, 0xCC, 0xFF], [0xFF, 0x55, 4, 4, 0, 0x30, 2, 0xC6]]" ipod_example_env]
  by (simp add: ipod_example_frames_def framed_frame_def ipod_heads ipod_stuck_def)

text \<open>
  The large packet mark stops the reader: all bytes are kept.
\<close>

lemma ipod_cut_large:
  assumes "take 3 v = take (length v) [0xFF, 0x55, 0]"
  shows "framed_cut IPOD_PROTOCAL_FRAME_START_BYTE_ONE IPOD_PROTOCAL_FRAME_START_BYTE_TWO ipod_stuck 1 0 v = FWait v"
proof (cases "v = []")
  case False
  have nth: "v ! i = [0xFF, 0x55, 0] ! i" if "i < length v" "i < 3" for i
    using that arg_cong [OF assms, of "\<lambda>x. x ! i"] by simp
  have h: "v ! 0 = IPOD_PROTOCAL_FRAME_START_BYTE_ONE" using nth [of 0] False by (simp add: ipod_heads)
  have "length v > 1 \<Longrightarrow> v ! 1 = IPOD_PROTOCAL_FRAME_START_BYTE_TWO" "length v > 2 \<Longrightarrow> v ! 2 = 0"
    using nth [of 1] nth [of 2] by (simp_all add: ipod_heads)
  moreover have "length v > 0" using False by simp
  ultimately show ?thesis using h linorder_neqE_nat [of "length v" 1]
    by (subst framed_cut_at [of 0 0]) (cases "length v = 1"; auto simp: Let_def ipod_stuck_def)+
qed (simp add: framed_cut_def)

lemma ipod_check_large:
  assumes "rx_ok c" "take 3 (rx_pending c) = take (length (rx_pending c)) [0xFF, 0x55, 0]"
  obtains d where "ipod_check_full_command env c = Some d" "rx_ok d" "rx_pending d = rx_pending c" "rx.more d = rx.more c"
proof -
  from ipod_reader.check_refines [OF assms(1), of env]
  have "rel_option (\<lambda>d a. rx_ok d \<and> rx_view d = a) (ipod_check_full_command env c) (Some (rx_pending c, rx.more c))"
    unfolding framed_spec_wait [OF ipod_cut_large [OF assms(2)]] ipod_check_full_command_def .
  with that show thesis by (auto simp: option_rel_Some2 rx_view_def)
qed

text \<open>The kept bytes of a thread that has met the mark: everything it was given, while it fits.\<close>

lemma ipod_thread_large:
  assumes "rx_ok c" "take 3 (rx_pending c @ concat cs) = [0xFF, 0x55, 0]"
  shows "rel_option (\<lambda>(ended, d) v. rx_pending d = v \<and> rx.more d = rx.more c)
    (read_thread m (ipod_check_full_command env) r (map Read_bytes cs) c)
    (if length (rx_pending c @ concat cs) \<le> 528 then Some (rx_pending c @ concat cs) else None)"
  using assms
proof (induction cs arbitrary: c)
  case Nil
  then show ?case using length_rx_pending [OF Nil(1)] rx_okD(4) [OF Nil(1)] by simp
next
  case (Cons x cs)
  have len: "int (length (rx_pending c)) = tty_buffer_pos c"
    using length_rx_pending [OF Cons.prems(1)] rx_okD(3) [OF Cons.prems(1)] by simp
  show ?case
  proof (cases "length (rx_pending c) + length x \<le> 528")
    case False
    have "tty_buffer c \<noteq> [] \<Longrightarrow> rx_fill x c = None"
      using False len rx_okD(1) [OF Cons.prems(1)] length_rx_pending [OF Cons.prems(1)] by (simp add: rx_fill_def memcpy_at_def)
    moreover have "tty_buffer c \<noteq> []" using rx_okD(1) [OF Cons.prems(1)] by auto
    ultimately show ?thesis using False by simp
  next
    case True
    then have "tty_buffer_pos c + int (length x) \<le> int (MAX_BUFFER_STRING + 16)" using len by linarith
    from rx_fill_ok [OF Cons.prems(1) this] obtain u where u: "rx_fill x c = Some u" "rx_ok u"
      "rx_pending u = rx_pending c @ x" "rx.more u = rx.more c" by metis
    have "take 3 (rx_pending u) = take (length (rx_pending u)) (take 3 (rx_pending u @ concat cs))"
      by (simp add: take_append min_def)
    also have "take 3 (rx_pending u @ concat cs) = [0xFF, 0x55, 0]" using Cons.prems(2) u(3) by simp
    finally obtain d where d: "ipod_check_full_command env u = Some d" "rx_ok d" "rx_pending d = rx_pending u" "rx.more d = rx.more u"
      using ipod_check_large [OF u(2)] by metis
    have same: "rx_pending d = rx_pending c @ x" "rx.more d = rx.more c" using u d by simp_all
    have "take 3 (rx_pending d @ concat cs) = [0xFF, 0x55, 0]" using Cons.prems(2) same by simp
    from Cons.IH [OF d(2) this, unfolded same append_assoc] show ?thesis using u(1) d(1) by (simp split: if_splits)
  qed
qed

text \<open>
  C37. A frame of length 0, the mark of the large packet format, stops the iPod driver for good.
  Nothing is parsed any more, whatever arrives afterwards: as long as the bytes received fit into
  the 528 bytes of \<open>tty_buffer\<close> they are all kept and no notification is queued, and the read that
  exceeds them is copied past the end of the buffer.
\<close>

theorem ipod_large_packet_overflow:
  "case ipod_read_thread_func env (map Read_bytes ([0xFF, 0x55, 0] # cs)) ipod_init of
      None \<Rightarrow> 3 + length (concat cs) > 528
    | Some (ended, d) \<Rightarrow> 3 + length (concat cs) \<le> 528 \<and> rx_pending d = [0xFF, 0x55, 0] @ concat cs \<and>
        ip_queue d = ip_queue ipod_init"
proof -
  let ?cs = "[0xFF, 0x55, 0] # cs"
  have q: "ip_queue d = ip_queue e" if "rx.more d = rx.more e" for d e :: ipod_state
    using that by (cases d, cases e) simp
  have "rel_option (\<lambda>(ended, d) v. rx_pending d = v \<and> rx.more d = rx.more ipod_init)
      (read_thread 3 (ipod_check_full_command env) 0 (map Read_bytes ?cs) ipod_init)
      (if length (rx_pending ipod_init @ concat ?cs) \<le> 528 then Some (rx_pending ipod_init @ concat ?cs) else None)"
    by (rule ipod_thread_large [OF ipod_init_ok(1)]) (simp add: ipod_init_ok(3))
  then show ?thesis unfolding ipod_read_thread_func_def ipod_init_ok(3)
    by (auto elim!: option.rel_cases split: if_splits dest!: q)
qed

section \<open>The driver reads what it writes\<close>









text \<open>
  The length of a title, artist or album report is lost: the report is a union of the text and
  its length, so copying a text that is not empty overwrites the length with the first byte of the
  text. A receiver that reads \<open>length\<close> gets that byte, not the number of bytes copied.
\<close>

lemma ipod_track_length_lost:
  assumes "length command = 256" "command ! 1 = EXTENDE_INTERFACE_MODE_TYPE" "ipod_report_code command = 0x21"
    "3 < uint (command ! 0)" "uint (command ! 0) < 255" "ie_malloc env (ip_calls c) \<noteq> 0"
  shows "\<exists>d u. ipod_parse_command env command c = Some d \<and>
    nq_head (ip_queue d) = nq_head (ip_queue c) @ [\<lparr>ip_report_type = 0x21, ip_report_context = playing_track_title_report u\<rparr>] \<and>
    track_text_length u = command ! 4"
proof -
  let ?stack = "map (ie_stack env (ip_calls c)) [0..<256]" and ?len = "uint (command ! 0)"
  have n: "unat (command ! 0) \<noteq> 255" using assms(5) uint_nat [of "command ! 0"] by linarith
  obtain m where m: "?len - 3 = int m" "0 < m" "m \<le> 252" 
    using that [of "nat (?len - 3)"] assms(4,5) by auto
  define u where "u = take m (drop 4 command) @ drop m (?stack[0 := word_of_int (int m)])"
  have u: "ipod_track_text ?stack command ?len = Some u" "u ! 0 = command ! 4"
    using assms(1) m(2,3) unfolding ipod_track_text_def m(1) u_def by (simp_all add: wr_def memcpy_at_def nth_append)
  have r: "rd command 1 = Some EXTENDE_INTERFACE_MODE_TYPE" "rd command 2 = Some (command ! 2)" "rd command 3 = Some (command ! 3)"
    using assms(1,2) by (simp_all add: rd_def)
  have "ipod_switch env (ip_calls c) command ?len = Some (Some \<lparr>ip_report_type = 0x21, ip_report_context = playing_track_title_report u\<rparr>)"
    unfolding ipod_switch_def Let_def r bind.bind_lunit assms(3) [unfolded ipod_report_code_def]
    by (simp add: GENERAL_LINGO_TYPE_def EXTENDE_INTERFACE_MODE_TYPE_def ipod_extended_def ipod_report_types_def u(1))
  then show ?thesis using n assms(6) u(2)
    by (simp add: ipod_parse_command_eq [OF assms(1)] push_ipod_notificaiton_def push_notification_def track_text_length_def)
qed

lemma ipod_track_length_lost_example:
  "\<exists>d u. ipod_parse_command ipod_example_env ([6, 4, 0, 0x21, 0x41, 0x42, 0x43] @ replicate 249 0) ipod_init = Some d \<and>
    nq_head (ip_queue d) = [\<lparr>ip_report_type = 0x21, ip_report_context = playing_track_title_report u\<rparr>] \<and> track_text_length u = 0x41"
  using ipod_track_length_lost [of "[6, 4, 0, 0x21, 0x41, 0x42, 0x43] @ replicate 249 0" ipod_example_env ipod_init]
  by (simp add: ipod_report_code_def EXTENDE_INTERFACE_MODE_TYPE_def ipod_example_env_def ipod_init_def nq_init_def)

end
