(* ===== verification/Gps_Time.thy ===== *)
theory Gps_Time
  imports Prelude "HOL-Library.Signed_Division"
begin

text \<open>
  The calendar of the GPS driver, the end of \<^verbatim>\<open>src/hardware/mx5x/libgps/tractor_gps.c\<close>:
  \<open>utc_mktime\<close> turns a date into the seconds since 1970. It is compared with the sum of the
  lengths of the years, months and days before the date.
\<close>

section \<open>The code\<close>

text \<open>An \<open>int\<close>, and a \<open>time_t\<close>, has 32 bits; a result outside is undefined.\<close>

definition c_int :: "int \<Rightarrow> int option" where
  "c_int x = (if - (2 ^ 31) \<le> x \<and> x < 2 ^ 31 then Some x else None)"

definition SECONDS_PER_MIN :: int where "SECONDS_PER_MIN = 60"
definition SECONDS_PER_HOUR :: int where "SECONDS_PER_HOUR = 60 * SECONDS_PER_MIN"
definition SECONDS_PER_DAY :: int where "SECONDS_PER_DAY = 24 * SECONDS_PER_HOUR"
definition SECONDS_PER_NORMAL_YEAR :: int where "SECONDS_PER_NORMAL_YEAR = 365 * SECONDS_PER_DAY"

lemmas seconds_per = SECONDS_PER_MIN_def SECONDS_PER_HOUR_def SECONDS_PER_DAY_def SECONDS_PER_NORMAL_YEAR_def

definition days_per_month_no_leap :: "int list" where
  "days_per_month_no_leap = [31, 28, 31, 30, 31, 30, 31, 31, 30, 31, 30, 31]"

definition days_per_month_leap :: "int list" where
  "days_per_month_leap = [31, 29, 31, 30, 31, 30, 31, 31, 30, 31, 30, 31]"

definition is_leap_year :: "int \<Rightarrow> bool" where
  "is_leap_year year =
     (if year smod 400 = 0 then True
      else if year smod 100 = 0 then False
      else if year smod 4 = 0 then True
      else False)"

definition number_of_leap_years_in_between :: "int \<Rightarrow> int \<Rightarrow> int" where
  "number_of_leap_years_in_between from to =
     (let n_400y = to sdiv 400 - from sdiv 400;
          n_100y = to sdiv 100 - from sdiv 100;
          n_4y = to sdiv 4 - from sdiv 4
      in n_4y - n_100y + n_400y)"

record tm =
  tm_sec :: int
  tm_min :: int
  tm_hour :: int
  tm_mday :: int
  tm_mon :: int
  tm_year :: int

text \<open>The loop over the months before; an index of 12 or more is outside the table.\<close>

fun add_months :: "int list \<Rightarrow> nat \<Rightarrow> nat \<Rightarrow> int \<Rightarrow> int option" where
  "add_months days_per_month m 0 t_epoch = Some t_epoch"
| "add_months days_per_month m (Suc n) t_epoch =
     (if m < length days_per_month
      then do { t \<leftarrow> c_int (t_epoch + days_per_month ! m * SECONDS_PER_DAY); add_months days_per_month (Suc m) n t }
      else None)"

text \<open>A product that overflows, added to \<open>t_epoch\<close>.\<close>

definition add_seconds :: "int \<Rightarrow> int \<Rightarrow> int \<Rightarrow> int option" where
  "add_seconds t n s = do { x \<leftarrow> c_int (n * s); c_int (t + x) }"

definition utc_mktime :: "tm \<Rightarrow> int option" where
  "utc_mktime t =
     do {
       let days_per_month = (if is_leap_year (tm_year t + 1900) then days_per_month_leap else days_per_month_no_leap);
       t_epoch \<leftarrow> add_seconds 0 (tm_year t - 70) SECONDS_PER_NORMAL_YEAR;
       t_epoch \<leftarrow> add_seconds t_epoch (number_of_leap_years_in_between 1970 (tm_year t + 1900)) SECONDS_PER_DAY;
       t_epoch \<leftarrow> add_months days_per_month 0 (nat (tm_mon t)) t_epoch;
       t_epoch \<leftarrow> add_seconds t_epoch (tm_mday t - 1) SECONDS_PER_DAY;
       t_epoch \<leftarrow> add_seconds t_epoch (tm_hour t) SECONDS_PER_HOUR;
       t_epoch \<leftarrow> add_seconds t_epoch (tm_min t) SECONDS_PER_MIN;
       c_int (t_epoch + tm_sec t)
     }"

section \<open>The calendar\<close>

text \<open>The leap years of the Gregorian calendar, and the days before a year and before a month.\<close>

definition leap :: "int \<Rightarrow> bool" where
  "leap y = (4 dvd y \<and> (100 dvd y \<longrightarrow> 400 dvd y))"

fun days_before_year :: "nat \<Rightarrow> int" where
  "days_before_year 0 = 0"
| "days_before_year (Suc n) = days_before_year n + (if leap (1970 + int n) then 366 else 365)"

definition month_lengths :: "int \<Rightarrow> int list" where
  "month_lengths y = [31, if leap y then 29 else 28, 31, 30, 31, 30, 31, 31, 30, 31, 30, 31]"

definition utc_seconds :: "tm \<Rightarrow> int" where
  "utc_seconds t =
     (((days_before_year (nat (tm_year t - 70)) + sum_list (take (nat (tm_mon t)) (month_lengths (tm_year t + 1900)))
        + (tm_mday t - 1)) * 24 + tm_hour t) * 60 + tm_min t) * 60 + tm_sec t"

definition valid_tm :: "tm \<Rightarrow> bool" where
  "valid_tm t = (70 \<le> tm_year t \<and> tm_year t \<le> 137 \<and> 0 \<le> tm_mon t \<and> tm_mon t \<le> 11 \<and> 1 \<le> tm_mday t \<and> tm_mday t \<le> 31 \<and>
     0 \<le> tm_hour t \<and> tm_hour t \<le> 23 \<and> 0 \<le> tm_min t \<and> tm_min t \<le> 59 \<and> 0 \<le> tm_sec t \<and> tm_sec t \<le> 60)"

lemma dvd_100: "400 dvd y \<Longrightarrow> 100 dvd (y :: int)" "100 dvd y \<Longrightarrow> 4 dvd (y :: int)"
  by (rule dvd_trans; simp)+

lemma is_leap_year_eq: "is_leap_year y = leap y"
proof -
  have "(y smod k = 0) = (k dvd y)" for k :: int
    by (auto simp: signed_modulo_int_def sgn_0_0 dvd_eq_mod_eq_0 [symmetric])
  then show ?thesis using dvd_100 [of y] by (auto simp: is_leap_year_def leap_def)
qed

lemma div_Suc_int: "(0 :: int) < k \<Longrightarrow> (y + 1) div k = y div k + (if k dvd y + 1 then 1 else 0)"
proof -
  assume k: "0 < k"
  have y: "y = k * (y div k) + y mod k" by simp
  have m: "0 \<le> y mod k" "y mod k < k" using k by simp_all
  show ?thesis
  proof (cases "y mod k = k - 1")
    case True
    then have e: "y + 1 = k * (y div k + 1)" using y by (simp add: distrib_left)
    then have "(y + 1) div k = y div k + 1" using k by (metis nonzero_mult_div_cancel_left less_irrefl)
    with e show ?thesis by simp
  next
    case False
    then have "(y + 1) div k = y div k" "(y + 1) mod k = y mod k + 1"
      using int_div_pos_eq [of "y + 1" k "y div k" "y mod k + 1"] int_mod_pos_eq [of "y + 1" k "y div k" "y mod k + 1"] y m by auto
    then show ?thesis using m by (auto simp: dvd_eq_mod_eq_0)
  qed
qed

lemma leap_years_Suc:
  assumes "0 \<le> y"
  shows "number_of_leap_years_in_between x (y + 1) = number_of_leap_years_in_between x y + (if leap (y + 1) then 1 else 0)"
proof -
  have step: "(y + 1) sdiv k = y sdiv k + (if k dvd y + 1 then 1 else 0)" if "0 < k" for k
    using div_Suc_int [OF that, of y] that assms by (simp add: signed_divide_int_def sgn_if)
  have "\<not> 4 dvd y + 1 \<Longrightarrow> \<not> 100 dvd y + 1" "\<not> 100 dvd y + 1 \<Longrightarrow> \<not> 400 dvd y + 1" using dvd_100 by blast+
  then show ?thesis unfolding number_of_leap_years_in_between_def Let_def leap_def by (simp add: step)
qed

lemma days_before_year_eq:
  "days_before_year n = 365 * int n + number_of_leap_years_in_between 1970 (1970 + int n) - (if leap (1970 + int n) then 1 else 0)"
proof (induction n)
  case 0
  show ?case by (simp add: number_of_leap_years_in_between_def leap_def)
next
  case (Suc n)
  have "1970 + int (Suc n) = (1970 + int n) + 1" by simp
  with Suc leap_years_Suc [of "1970 + int n" 1970] show ?case by simp
qed

lemma c_int_ok: "- (2 ^ 31) \<le> x \<Longrightarrow> x < 2 ^ 31 \<Longrightarrow> c_int x = Some x"
  by (simp add: c_int_def)

lemma add_seconds_ok: "0 \<le> t \<Longrightarrow> 0 \<le> n * s \<Longrightarrow> t + n * s < 2 ^ 31 \<Longrightarrow> add_seconds t n s = Some (t + n * s)"
  by (simp add: add_seconds_def c_int_def)

lemma add_months_eq:
  "m + n \<le> length days \<Longrightarrow> \<forall>d \<in> set days. 0 \<le> d \<Longrightarrow> 0 \<le> t \<Longrightarrow> t + sum_list (take n (drop m days)) * SECONDS_PER_DAY < 2 ^ 31 \<Longrightarrow>
    add_months days m n t = Some (t + sum_list (take n (drop m days)) * SECONDS_PER_DAY)"
proof (induction n arbitrary: m t)
  case (Suc n)
  have drop: "drop m days = days ! m # drop (Suc m) days" using Suc.prems(1) by (simp add: Cons_nth_drop_Suc)
  have pos: "0 \<le> days ! m" "0 \<le> sum_list (take n (drop (Suc m) days))" "0 < SECONDS_PER_DAY"
    using Suc.prems(1,2) by (auto simp: seconds_per intro!: sum_list_nonneg dest: in_set_takeD in_set_dropD)
  let ?t = "t + days ! m * SECONDS_PER_DAY"
  have le: "?t + sum_list (take n (drop (Suc m) days)) * SECONDS_PER_DAY < 2 ^ 31" "0 \<le> ?t"
    using Suc.prems(3,4) pos by (simp_all add: drop algebra_simps)
  moreover have "0 \<le> sum_list (take n (drop (Suc m) days)) * SECONDS_PER_DAY" using pos by simp
  ultimately have "c_int ?t = Some ?t" by (intro c_int_ok) linarith+
  then show ?case using Suc.IH [of "Suc m" ?t] Suc.prems(1,2) le by (simp add: drop algebra_simps)
qed simp

lemma month_table: "(if is_leap_year y then days_per_month_leap else days_per_month_no_leap) = month_lengths y"
  by (simp add: is_leap_year_eq month_lengths_def days_per_month_leap_def days_per_month_no_leap_def)

lemma leap_years_nonneg: "0 \<le> number_of_leap_years_in_between 1970 (1970 + int n)"
proof (induction n)
  case 0
  show ?case by (simp add: number_of_leap_years_in_between_def)
next
  case (Suc n)
  have "1970 + int (Suc n) = (1970 + int n) + 1" by simp
  with Suc leap_years_Suc [of "1970 + int n" 1970] show ?case by simp
qed

lemma leap_years_bound:
  assumes "n \<le> 67"
  shows "number_of_leap_years_in_between 1970 (1970 + int n) \<le> 18"
proof -
  let ?y = "1970 + int n"
  have s: "?y sdiv k = ?y div k" if "0 < k" for k
    using that by (simp add: signed_divide_int_def sgn_if)
  have "?y div 4 \<le> 2037 div 4" "1970 div 100 \<le> ?y div 100" "?y div 400 \<le> 2037 div 400"
    by (rule zdiv_mono1; use assms in simp)+
  then show ?thesis unfolding number_of_leap_years_in_between_def Let_def by (simp add: s)
qed

lemma days_of_months:
  assumes "n \<le> 11"
  shows "sum_list (take n (month_lengths y)) \<le> 335" "0 \<le> sum_list (take n (month_lengths y))"
proof -
  let ?rest = "take (11 - n) (drop n (month_lengths y))"
  have pos: "0 \<le> x" if "x \<in> set (month_lengths y)" for x using that by (auto simp: month_lengths_def split: if_splits)
  then have "0 \<le> sum_list ?rest" by (intro sum_list_nonneg) (meson in_set_dropD in_set_takeD)
  moreover have "take n (month_lengths y) @ ?rest = take 11 (month_lengths y)"
    using take_add [of n "11 - n" "month_lengths y"] assms by simp
  then have "sum_list (take n (month_lengths y)) + sum_list ?rest = sum_list (take 11 (month_lengths y))"
    by (metis sum_list_append)
  moreover have "sum_list (take 11 (month_lengths y)) \<le> 335" by (simp add: month_lengths_def)
  ultimately show "sum_list (take n (month_lengths y)) \<le> 335" by linarith
  show "0 \<le> sum_list (take n (month_lengths y))" using pos by (intro sum_list_nonneg) (meson in_set_takeD)
qed

text \<open>
  The month is not checked: from a month number of 14 on (\<open>tm_mon\<close> counts from 0) the loop reads
  past the end of the table of month lengths, whatever the rest of the date.
\<close>

lemma utc_mktime_month_out_of_table:
  assumes "tm_mon t > 12"
  shows "utc_mktime t = None"
proof -
  have stop: "add_months days m n x = None" if "m \<le> length days" "length days < m + n" for days :: "int list" and m n x
    using that
  proof (induction n arbitrary: m x)
    case (Suc n)
    then show ?case by (auto split: bind_splits)
  qed simp
  have "add_months (month_lengths (tm_year t + 1900)) 0 (nat (tm_mon t)) x = None" for x
    by (rule stop) (use assms in \<open>simp_all add: month_lengths_def\<close>)
  then show ?thesis unfolding utc_mktime_def Let_def month_table by (auto split: bind_splits)
qed

section \<open>Properties\<close>

text \<open>
  C28. \<open>utc_mktime\<close> on every valid date from 1970 to 2037 (after that its 32 bits overflow): it gives
  the seconds of the Gregorian calendar in common years, and one day more than that in leap years,
  because the leap years counted between 1970 and the year include the year itself.
\<close>

theorem utc_mktime_leap_day:
  assumes "valid_tm t"
  shows "utc_mktime t = Some (utc_seconds t + (if leap (tm_year t + 1900) then SECONDS_PER_DAY else 0))"
proof -
  note v = assms [unfolded valid_tm_def]
  define n where "n = nat (tm_year t - 70)"
  define m where "m = nat (tm_mon t)"
  define l where "l = number_of_leap_years_in_between 1970 (1970 + int n)"
  define d where "d = sum_list (take m (month_lengths (tm_year t + 1900)))"
  have n: "tm_year t - 70 = int n" "tm_year t + 1900 = 1970 + int n" "n \<le> 67" using v by (auto simp: n_def)
  have m: "nat (tm_mon t) = m" "m \<le> 11" using v by (auto simp: m_def)
  have l: "0 \<le> l" "l \<le> 18" using leap_years_bound [OF n(3)] leap_years_nonneg [of n] by (auto simp: l_def)
  have d: "0 \<le> d" "d \<le> 335" using days_of_months [OF m(2)] by (auto simp: d_def)
  let ?t1 = "int n * 31536000" and ?t2 = "int n * 31536000 + l * 86400"
  let ?t3 = "?t2 + d * 86400"
  let ?t4 = "?t3 + (tm_mday t - 1) * 86400"
  let ?t5 = "?t4 + tm_hour t * 3600"
  let ?t6 = "?t5 + tm_min t * 60"
  have "add_seconds 0 (int n) SECONDS_PER_NORMAL_YEAR = Some ?t1"
    using n(3) by (subst add_seconds_ok) (auto simp: seconds_per)
  moreover have "add_seconds ?t1 l SECONDS_PER_DAY = Some ?t2"
    using n(3) l by (subst add_seconds_ok) (auto simp: seconds_per)
  moreover have "add_months (month_lengths (tm_year t + 1900)) 0 m ?t2 = Some ?t3"
  proof -
    have "\<forall>x \<in> set (month_lengths (tm_year t + 1900)). 0 \<le> x" "m \<le> length (month_lengths (tm_year t + 1900))"
      using m(2) by (auto simp: month_lengths_def)
    then show ?thesis using n(3) l d add_months_eq [of 0 m "month_lengths (tm_year t + 1900)" ?t2]
      by (simp add: seconds_per d_def [symmetric])
  qed
  moreover have "add_seconds ?t3 (tm_mday t - 1) SECONDS_PER_DAY = Some ?t4"
    using n(3) l d v by (subst add_seconds_ok) (auto simp: seconds_per)
  moreover have "add_seconds ?t4 (tm_hour t) SECONDS_PER_HOUR = Some ?t5"
    using n(3) l d v by (subst add_seconds_ok) (auto simp: seconds_per)
  moreover have "add_seconds ?t5 (tm_min t) SECONDS_PER_MIN = Some ?t6"
    using n(3) l d v by (subst add_seconds_ok) (auto simp: seconds_per)
  moreover have "c_int (?t6 + tm_sec t) = Some (?t6 + tm_sec t)"
    by (rule c_int_ok) (use n(3) l d v in auto)
  ultimately have "utc_mktime t = Some (?t6 + tm_sec t)"
    unfolding utc_mktime_def Let_def month_table n(1) m(1) unfolding n(2) l_def [symmetric] by simp
  moreover have "utc_seconds t + (if leap (tm_year t + 1900) then SECONDS_PER_DAY else 0) = ?t6 + tm_sec t"
    unfolding utc_seconds_def n(1) nat_int days_before_year_eq [of n] n(2) [symmetric] m(1) d_def [symmetric]
    by (simp add: n(2) l_def [symmetric] seconds_per)
  ultimately show ?thesis by simp
qed

theorem utc_mktime_leap_day_witness:
  "utc_mktime \<lparr>tm_sec = 0, tm_min = 0, tm_hour = 0, tm_mday = 1, tm_mon = 0, tm_year = 72\<rparr> = Some (63072000 + 86400)"
  by (subst utc_mktime_leap_day) (simp_all add: valid_tm_def leap_def utc_seconds_def numeral_2_eq_2 seconds_per)

end
