(* ===== verification/Nmea_Tokens.thy ===== *)
theory Nmea_Tokens
  imports Complex_Main Prelude Gps_Time
begin

text \<open>
  The tokenizer and the number conversions of the NMEA parser of
  \<^verbatim>\<open>src/hardware/mx5x/libgps/tractor_gps.c\<close>. A token is a pair of pointers into the sentence,
  given by the object and two indices; a token that is not there points to the empty string. The
  tokenizer is compared with splitting a list at commas, \<open>str2int\<close> with printing a number in
  decimal.
\<close>

section \<open>The tokenizer\<close>

record token =
  tk_obj :: bytes
  tk_p :: nat
  tk_end :: nat

abbreviation MAX_NMEA_TOKENS :: nat where "MAX_NMEA_TOKENS \<equiv> 32"

text \<open>The dollar sign, the line end and the checksum are cut off first.\<close>

definition nmea_trim :: "bytes \<Rightarrow> nat \<Rightarrow> nat \<Rightarrow> (nat \<times> nat) option" where
  "nmea_trim obj p e =
     do {
       p \<leftarrow> (if p < e then do { c \<leftarrow> rd obj p; Some (if c = 0x24 then p + 1 else p) } else Some p);
       e \<leftarrow> (if e > p then do {
              c \<leftarrow> rd obj (e - 1);
              if c = 0x0A then
                (if e - 1 > p then do { c \<leftarrow> rd obj (e - 2); Some (if c = 0x0D then e - 2 else e - 1) } else Some (e - 1))
              else Some e }
            else Some e);
       e \<leftarrow> (if e \<ge> p + 3 then do { c \<leftarrow> rd obj (e - 3); Some (if c = 0x2A then e - 3 else e) } else Some e);
       Some (p, e)
     }"

text \<open>The comma a token ends at, or the end.\<close>

definition token_end :: "bytes \<Rightarrow> nat \<Rightarrow> nat \<Rightarrow> nat option" where
  "token_end obj p e = do { q \<leftarrow> memchr_at obj p 0x2C (int e - int p); Some (case q of None \<Rightarrow> e | Some q \<Rightarrow> q) }"

lemma token_end_ge: "token_end obj p e = Some q \<Longrightarrow> p < e \<Longrightarrow> p \<le> q"
  using memchr_from_found by (fastforce simp: token_end_def memchr_at_def bind_eq_Some_conv split: if_splits option.splits)

function nmea_tokens :: "bytes \<Rightarrow> nat \<Rightarrow> nat \<Rightarrow> token list \<Rightarrow> token list option" where
  "nmea_tokens obj p e tokens =
     (if p < e then
        (case token_end obj p e of
           None \<Rightarrow> None
         | Some q \<Rightarrow>
             let tokens = (if length tokens < MAX_NMEA_TOKENS then tokens @ [\<lparr>tk_obj = obj, tk_p = p, tk_end = q\<rparr>] else tokens);
                 q = (if q < e then q + 1 else q)
             in nmea_tokens obj q e tokens)
      else Some tokens)"
  by auto
termination
  by (relation "measure (\<lambda>(obj, p, e, tokens). e - p)") (auto dest: token_end_ge split: if_splits)

declare nmea_tokens.simps [simp del]

definition nmea_tokenizer_init :: "bytes \<Rightarrow> nat \<Rightarrow> nat \<Rightarrow> token list option" where
  "nmea_tokenizer_init obj p e = do { (p, e) \<leftarrow> nmea_trim obj p e; nmea_tokens obj p e [] }"

definition nmea_tokenizer_get :: "token list \<Rightarrow> int \<Rightarrow> token" where
  "nmea_tokenizer_get t index =
     (if index < 0 \<or> index \<ge> int (length t) then \<lparr>tk_obj = [0], tk_p = 0, tk_end = 0\<rparr> else t ! nat index)"

section \<open>Numbers\<close>

text \<open>An \<open>int\<close> that overflows is undefined, as is a character read outside the object.\<close>

fun str2int_loop :: "bytes \<Rightarrow> nat \<Rightarrow> nat \<Rightarrow> int \<Rightarrow> int option" where
  "str2int_loop obj p 0 result = Some result"
| "str2int_loop obj p (Suc len) result =
     do {
       b \<leftarrow> rd obj p;
       let c = uint b - 0x30;
       if c < 0 \<or> c \<ge> 10 then Some (-1)
       else do { result \<leftarrow> c_int (result * 10 + c); str2int_loop obj (p + 1) len result }
     }"

definition str2int :: "bytes \<Rightarrow> nat \<Rightarrow> nat \<Rightarrow> int option" where
  "str2int obj p e = (if e = p then Some (-1) else str2int_loop obj p (e - p) 0)"

text \<open>
  The floating-point arithmetic the parser uses, as a parameter: conversion from text, literals,
  and the operations. \<open>d_float\<close> rounds a \<open>double\<close> to a \<open>float\<close>.
\<close>

record 'd arith =
  d_strtod :: "bytes \<Rightarrow> 'd"
  d_lit :: "rat \<Rightarrow> 'd"
  d_add :: "'d \<Rightarrow> 'd \<Rightarrow> 'd"
  d_sub :: "'d \<Rightarrow> 'd \<Rightarrow> 'd"
  d_mul :: "'d \<Rightarrow> 'd \<Rightarrow> 'd"
  d_div :: "'d \<Rightarrow> 'd \<Rightarrow> 'd"
  d_neg :: "'d \<Rightarrow> 'd"
  d_floor :: "'d \<Rightarrow> 'd"
  d_eq :: "'d \<Rightarrow> 'd \<Rightarrow> bool"
  d_to_int :: "'d \<Rightarrow> int"
  d_float :: "'d \<Rightarrow> 'd"

text \<open>
  The text is copied with the character behind it and closed with a zero; \<open>strtod\<close> reads up to
  the first zero.
\<close>

definition str2float :: "'d arith \<Rightarrow> bytes \<Rightarrow> nat \<Rightarrow> nat \<Rightarrow> 'd option" where
  "str2float ar obj p e =
     (let len = int e - int p + 1 in
      if len = 0 then Some (d_lit ar (-1))
      else if len \<ge> 32 then Some (d_lit ar 0)
      else do {
        temp \<leftarrow> memcpy_at (replicate 32 0) 0 obj p len;
        temp \<leftarrow> wr temp (nat len) 0;
        Some (d_strtod ar (takeWhile (\<lambda>x. x \<noteq> 0) temp))
      })"

section \<open>Splitting at commas\<close>

text \<open>A comma at the end does not open another field.\<close>

lemma drop_field: "bs \<noteq> [] \<Longrightarrow> length (drop 1 (dropWhile P bs)) < length bs"
  using length_dropWhile_le [of P bs] by (cases bs) auto

function fields :: "bytes \<Rightarrow> bytes list" where
  "fields bs =
     (if bs = [] then [] else takeWhile (\<lambda>x. x \<noteq> 0x2C) bs # fields (drop 1 (dropWhile (\<lambda>x. x \<noteq> 0x2C) bs)))"
  by auto
termination
  by (relation "measure length") (use drop_field in auto)

declare fields.simps [simp del]

definition token_text :: "token \<Rightarrow> bytes" where
  "token_text t = drop (tk_p t) (take (tk_end t) (tk_obj t))"

text \<open>What the tokenizer cuts off, on the bytes of the sentence.\<close>

definition trimmed :: "bytes \<Rightarrow> bytes" where
  "trimmed bs =
     (let bs = (if bs \<noteq> [] \<and> hd bs = 0x24 then tl bs else bs);
          bs = (if bs \<noteq> [] \<and> last bs = 0x0A
                then (let cs = butlast bs in if cs \<noteq> [] \<and> last cs = 0x0D then butlast cs else cs) else bs)
      in if length bs \<ge> 3 \<and> bs ! (length bs - 3) = 0x2A then take (length bs - 3) bs else bs)"

lemma token_end_eq:
  assumes "p < e" "e \<le> length obj"
  shows "token_end obj p e = Some (p + length (takeWhile (\<lambda>x. x \<noteq> 0x2C) (drop p (take e obj))))"
proof -
  let ?v = "drop p (take e obj)"
  have "memchr_at obj p 0x2C (int e - int p) = Some (if 0x2C \<in> set ?v then Some (p + length (takeWhile (\<lambda>x. x \<noteq> 0x2C) ?v)) else None)"
    by (rule memchr_at_window) (use assms in auto)
  moreover have "length (takeWhile (\<lambda>x. x \<noteq> 0x2C) ?v) = e - p" if "0x2C \<notin> set ?v"
  proof -
    have "takeWhile (\<lambda>x. x \<noteq> 0x2C) ?v = ?v" unfolding takeWhile_eq_all_conv using that by blast
    from arg_cong [OF this, of length] show ?thesis using assms by simp
  qed
  ultimately show ?thesis using assms by (auto simp: token_end_def)
qed

lemma nmea_tokens_eq:
  assumes "e \<le> length obj"
  shows "\<exists>ts. nmea_tokens obj p e tokens = Some ts \<and>
    map token_text ts = map token_text tokens @ take (32 - length tokens) (fields (drop p (take e obj)))"
proof (induction "e - p" arbitrary: p tokens rule: less_induct)
  case less
  show ?case
  proof (cases "p < e")
    case False
    then show ?thesis by (simp add: nmea_tokens.simps [of obj p] fields.simps)
  next
    case True
    let ?v = "drop p (take e obj)" and ?w = "takeWhile (\<lambda>x. x \<noteq> 0x2C) (drop p (take e obj))"
    define q where "q = p + length ?w"
    define q' where "q' = (if q < e then q + 1 else q)"
    let ?t = "\<lparr>tk_obj = obj, tk_p = p, tk_end = q\<rparr>"
    let ?ts = "if length tokens < 32 then tokens @ [?t] else tokens"
    have lw: "length ?w \<le> e - p" using length_takeWhile_le [of _ ?v] assms by simp
    have ne: "?v \<noteq> []" using True assms by simp
    have run: "nmea_tokens obj p e tokens = nmea_tokens obj q' e ?ts"
      unfolding q'_def using True token_end_eq [OF True assms] by (subst nmea_tokens.simps) (simp add: q_def Let_def)
    have "token_text ?t = take (length ?w) (drop p obj)" by (simp add: token_text_def q_def drop_take)
    also have "\<dots> = take (length ?w) ?v" using lw by (simp only: drop_take take_take min_absorb1)
    also have "\<dots> = ?w" by (rule takeWhile_eq_take [symmetric])
    finally have word: "token_text ?t = ?w" .
    have rest: "drop 1 (dropWhile (\<lambda>x. x \<noteq> 0x2C) ?v) = drop q' (take e obj)"
      using lw assms True by (auto simp: dropWhile_eq_drop q'_def q_def add_ac)
    have "e - q' < e - p" using True lw ne by (auto simp: q'_def q_def split: if_splits)
    from less [OF this, of ?ts] obtain ts where ts: "nmea_tokens obj q' e ?ts = Some ts"
      "map token_text ts = map token_text ?ts @ take (32 - length ?ts) (fields (drop q' (take e obj)))" by blast
    have "fields ?v = ?w # fields (drop q' (take e obj))" unfolding rest [symmetric] using ne by (subst fields.simps) simp
    with ts(2) word have "map token_text ts = map token_text tokens @ take (32 - length tokens) (fields ?v)"
      by (cases "length tokens < 32") (simp_all add: take_Cons' Suc_diff_Suc)
    with ts(1) run show ?thesis by simp
  qed
qed

text \<open>The cuts, made at both ends of the object.\<close>

lemma segment:
  assumes "e \<le> length obj"
  shows "drop p (take e obj) = [] \<longleftrightarrow> e \<le> p"
    and "p < e \<Longrightarrow> hd (drop p (take e obj)) = obj ! p"
    and "tl (drop p (take e obj)) = drop (p + 1) (take e obj)"
    and "0 < e \<Longrightarrow> last (take e obj) = obj ! (e - 1)"
    and "butlast (drop p (take e obj)) = drop p (take (e - 1) obj)"
    and "length (drop p (take e obj)) = e - p"
proof -
  show "0 < e \<Longrightarrow> last (take e obj) = obj ! (e - 1)" using assms by (subst last_conv_nth) auto
qed (use assms in \<open>auto simp: hd_drop_conv_nth tl_drop drop_Suc butlast_drop butlast_take\<close>)

lemma nmea_trim_eq:
  assumes "p \<le> e" "e \<le> length obj"
  shows "\<exists>p' e'. nmea_trim obj p e = Some (p', e') \<and> e' \<le> e \<and> drop p' (take e' obj) = trimmed (drop p (take e obj))"
proof -
  define p1 where "p1 = (if p < e \<and> obj ! p = 0x24 then p + 1 else p)"
  define e2 where "e2 = (if e > p1 \<and> obj ! (e - 1) = 0x0A then (if e - 1 > p1 \<and> obj ! (e - 2) = 0x0D then e - 2 else e - 1) else e)"
  define e3 where "e3 = (if e2 \<ge> p1 + 3 \<and> obj ! (e2 - 3) = 0x2A then e2 - 3 else e2)"
  have le: "p1 \<le> e" "e2 \<le> e" "e3 \<le> e2" using assms by (auto simp: p1_def e2_def e3_def)
  have s1: "(if p < e then do { c \<leftarrow> rd obj p; Some (if c = 0x24 then p + 1 else p) } else Some p) = Some p1"
    using assms by (simp add: p1_def rd_def)
  have s2: "(if e > p1 then do {
              c \<leftarrow> rd obj (e - 1);
              if c = 0x0A then
                (if e - 1 > p1 then do { c \<leftarrow> rd obj (e - 2); Some (if c = 0x0D then e - 2 else e - 1) } else Some (e - 1))
              else Some e }
            else Some e) = Some e2"
    using assms by (auto simp: e2_def rd_def)
  have s3: "(if e2 \<ge> p1 + 3 then do { c \<leftarrow> rd obj (e2 - 3); Some (if c = 0x2A then e2 - 3 else e2) } else Some e2) = Some e3"
    using assms le by (auto simp: e3_def rd_def)
  have "nmea_trim obj p e = Some (p1, e3)" unfolding nmea_trim_def s1 bind.bind_lunit s2 s3 ..
  moreover have v1: "(if drop p (take e obj) \<noteq> [] \<and> hd (drop p (take e obj)) = 0x24 then tl (drop p (take e obj)) else drop p (take e obj)) = drop p1 (take e obj)"
    using assms by (auto simp: segment p1_def)
  have v2: "(if drop p1 (take e obj) \<noteq> [] \<and> last (drop p1 (take e obj)) = 0x0A
      then (let cs = butlast (drop p1 (take e obj)) in if cs \<noteq> [] \<and> last cs = 0x0D then butlast cs else cs)
      else drop p1 (take e obj)) = drop p1 (take e2 obj)"
    using assms by (auto simp: segment e2_def Let_def numeral_2_eq_2)
  have "trimmed (drop p (take e obj)) = drop p1 (take e3 obj)"
    unfolding trimmed_def Let_def v1 unfolding v2 [unfolded Let_def]
    using assms le by (auto simp: segment e3_def drop_take add_ac)
  ultimately show ?thesis using le by auto
qed

section \<open>Properties\<close>

text \<open>
  C23. The tokenizer splits the sentence at its commas: on any object that holds the sentence it stays
  inside, and its tokens are the first 32 fields between the commas of the sentence without the
  dollar sign, the line end and the checksum.
\<close>

theorem nmea_tokens_are_fields:
  assumes "pos \<le> length obj"
  shows "\<exists>ts. nmea_tokenizer_init obj 0 pos = Some ts \<and> map token_text ts = take MAX_NMEA_TOKENS (fields (trimmed (take pos obj)))"
proof -
  from nmea_trim_eq [of 0 pos obj] assms obtain p e where
    t: "nmea_trim obj 0 pos = Some (p, e)" "e \<le> pos" "drop p (take e obj) = trimmed (take pos obj)" by auto
  from nmea_tokens_eq [of e obj p "[]"] assms t(2) obtain ts where
    "nmea_tokens obj p e [] = Some ts" "map token_text ts = take 32 (fields (drop p (take e obj)))" by auto
  with t show ?thesis by (simp add: nmea_tokenizer_init_def)
qed

theorem nmea_tokens_are_fields_witness:
  "\<exists>ts. nmea_tokenizer_init [0x24, 0x47, 0x2C, 0x2C, 0x31, 0x2A, 0x35, 0x38, 0x0D, 0x0A, 0, 0] 0 10 = Some ts \<and> map token_text ts = [[0x47], [], [0x31]]"
  using nmea_tokens_are_fields [of 10 "[0x24, 0x47, 0x2C, 0x2C, 0x31, 0x2A, 0x35, 0x38, 0x0D, 0x0A, 0, 0]"]
  by (simp add: trimmed_def fields.simps)

text \<open>The digits of a number.\<close>

fun decimal :: "nat \<Rightarrow> bytes" where
  "decimal n = (if n < 10 then [of_nat (0x30 + n)] else decimal (n div 10) @ [of_nat (0x30 + n mod 10)])"

declare decimal.simps [simp del]

lemma decimal_ne: "decimal n \<noteq> []"
  by (subst decimal.simps) simp

lemma digit_byte: "d < 10 \<Longrightarrow> uint (of_nat (0x30 + d) :: u8) = 0x30 + int d"
  by (simp add: unsigned_of_nat take_bit_nat_eq_self del: of_nat_add)

lemma str2int_loop_append:
  assumes "p + length xs \<le> length obj" "take (length xs) (drop p obj) = xs" "str2int_loop obj p (length xs) r = Some v" "v \<noteq> -1" "0 \<le> r"
  shows "str2int_loop obj p (length xs + k) r = str2int_loop obj (p + length xs) k v"
  using assms
proof (induction xs arbitrary: p r)
  case (Cons x xs)
  have p: "p < length obj" "obj ! p = x" "take (length xs) (drop (Suc p) obj) = xs"
    using Cons.prems(1,2) take_Suc_drop [of p obj "length xs"] by auto
  then obtain r' where r': "\<not> (uint x - 0x30 < 0 \<or> uint x - 0x30 \<ge> 10)" "c_int (r * 10 + (uint x - 0x30)) = Some r'"
      "str2int_loop obj (Suc p) (length xs) r' = Some v"
    using Cons.prems(3,4) by (auto simp: rd_def bind_eq_Some_conv split: if_splits)
  then have "0 \<le> r'" using Cons.prems(5) by (auto simp: c_int_def split: if_splits)
  with Cons.IH [of "Suc p" r'] Cons.prems(1,4) p r' show ?case by (simp add: rd_def)
qed simp

lemma str2int_loop_decimal:
  assumes "p + length (decimal n) \<le> length obj" "take (length (decimal n)) (drop p obj) = decimal n" "int n < 2 ^ 31"
  shows "str2int_loop obj p (length (decimal n)) 0 = Some (int n)"
  using assms
proof (induction n arbitrary: p rule: decimal.induct)
  case (1 n)
  have byte: "str2int_loop obj q 1 r = Some (r * 10 + int d)"
    if "q < length obj" "obj ! q = of_nat (0x30 + d)" "d < 10" "0 \<le> r" "r * 10 + int d < 2 ^ 31" for q r d
    using that digit_byte [OF that(3)] by (simp add: rd_def c_int_def)
  show ?case
  proof (cases "n < 10")
    case True
    then have "decimal n = [of_nat (0x30 + n)]" by (subst decimal.simps) simp
    moreover from this have "p < length obj" "obj ! p = of_nat (0x30 + n)"
      using "1.prems"(1,2) take_Suc_drop [of p obj 0] by auto
    ultimately show ?thesis using byte [of p n 0] True "1.prems"(3) by simp
  next
    case False
    let ?m = "n div 10" and ?d = "n mod 10"
    have dec: "decimal n = decimal ?m @ [of_nat (0x30 + ?d)]" using False by (subst decimal.simps) simp
    let ?l = "length (decimal ?m)"
    have take: "take ?l (drop p obj) = decimal ?m"
      using arg_cong [OF "1.prems"(2), of "take ?l"] by (simp add: dec)
    have q: "p + ?l < length obj" "obj ! (p + ?l) = of_nat (0x30 + ?d)"
      using "1.prems"(1) arg_cong [OF "1.prems"(2), of "\<lambda>x. x ! ?l"] by (simp_all add: dec nth_append)
    have "int ?m < 2 ^ 31" using "1.prems"(3) by linarith
    then have IH: "str2int_loop obj p ?l 0 = Some (int ?m)" using "1.IH" [OF False _ take] "1.prems"(1) by (simp add: dec)
    have "str2int_loop obj p (?l + 1) 0 = str2int_loop obj (p + ?l) 1 (int ?m)"
      by (rule str2int_loop_append [OF _ take IH]) (use q in auto)
    also have "\<dots> = Some (int ?m * 10 + int ?d)"
      by (rule byte [OF q]) (use "1.prems"(3) in \<open>auto simp: zmod_int zdiv_int\<close>)
    also have "int ?m * 10 + int ?d = int n" by (simp add: zdiv_int zmod_int)
    finally show ?thesis by (simp add: dec)
  qed
qed

text \<open>
  C24. \<open>str2int\<close> reads back every number an \<open>int\<close> can hold: a token with the decimal digits of
  \<open>n\<close>, anywhere in the sentence, is converted to \<open>n\<close>.
\<close>

theorem str2int_decimal:
  assumes "int n < 2 ^ 31"
  shows "str2int (xs @ decimal n @ ys) (length xs) (length xs + length (decimal n)) = Some (int n)"
  using assms decimal_ne [of n] by (simp add: str2int_def str2int_loop_decimal)

theorem str2int_decimal_witness: "str2int ([0x2C] @ [0x31, 0x32] @ [0x2C]) 1 3 = Some 12"
proof -
  have "decimal 12 = [0x31, 0x32]" by (simp add: decimal.simps)
  with str2int_decimal [of 12 "[0x2C]" "[0x2C]"] show ?thesis by (simp add: numeral_3_eq_3)
qed

end
