(* ===== verification/Nmea_Reader.thy ===== *)
theory Nmea_Reader
  imports Nmea_Tokens
begin

text \<open>
  The NMEA parser of \<^verbatim>\<open>src/hardware/mx5x/libgps/tractor_gps.c\<close>: the reader that collects the
  characters of a sentence, and the handling of each kind of sentence. The floating-point
  arithmetic and the clock of the host are parameters.
\<close>

section \<open>State\<close>

abbreviation GPS_MAX_SVS :: nat where "GPS_MAX_SVS \<equiv> 32"
abbreviation NMEA_MAX_SIZE :: nat where "NMEA_MAX_SIZE \<equiv> 83"

definition GPS_LOCATION_HAS_LAT_LONG :: u16 where "GPS_LOCATION_HAS_LAT_LONG = 0x0001"
definition GPS_LOCATION_HAS_ALTITUDE :: u16 where "GPS_LOCATION_HAS_ALTITUDE = 0x0002"
definition GPS_LOCATION_HAS_SPEED :: u16 where "GPS_LOCATION_HAS_SPEED = 0x0004"
definition GPS_LOCATION_HAS_BEARING :: u16 where "GPS_LOCATION_HAS_BEARING = 0x0008"
definition GPS_LOCATION_HAS_ACCURACY :: u16 where "GPS_LOCATION_HAS_ACCURACY = 0x0010"

record 'd GpsLocation =
  loc_flags :: u16
  latitude :: 'd
  longitude :: 'd
  altitude :: 'd
  speed :: 'd
  bearing :: 'd
  accuracy :: 'd
  timestamp :: int

record 'd GpsSvInfo =
  sv_prn :: int
  snr :: 'd
  elevation :: 'd
  azimuth :: 'd

record 'd GpsSvStatus =
  num_svs :: int
  sv_list :: "'d GpsSvInfo list"
  used_in_fix_mask :: u32

record 'd NmeaReader =
  nr_pos :: nat
  nr_overflow :: bool
  utc_year :: int
  utc_mon :: int
  utc_day :: int
  nr_fix :: "'d GpsLocation"
  sv_status :: "'d GpsSvStatus"
  sv_status_changed :: bool
  nr_in :: bytes
  gsa_fixed :: bool
  nr_calls :: nat

text \<open>
  The environment: the arithmetic, and the year, month and day \<open>gmtime_r\<close> gives for the clock, as
  in \<open>struct tm\<close>, for each call of \<open>nmea_reader_parse\<close>; \<open>nr_calls\<close> counts these.
\<close>

record 'd nmea_env =
  ne_arith :: "'d arith"
  ne_today :: "nat \<Rightarrow> int \<times> int \<times> int"

definition nmea_reader_init :: "'d \<Rightarrow> 'd NmeaReader" where
  "nmea_reader_init zero =
     \<lparr>nr_pos = 0, nr_overflow = False, utc_year = -1, utc_mon = -1, utc_day = -1,
      nr_fix = \<lparr>loc_flags = 0, latitude = zero, longitude = zero, altitude = zero, speed = zero, bearing = zero,
        accuracy = zero, timestamp = 0\<rparr>,
      sv_status = \<lparr>num_svs = 0, sv_list = replicate GPS_MAX_SVS \<lparr>sv_prn = 0, snr = zero, elevation = zero, azimuth = zero\<rparr>,
        used_in_fix_mask = 0\<rparr>,
      sv_status_changed = False, nr_in = replicate (NMEA_MAX_SIZE + 1) 0, gsa_fixed = False, nr_calls = 0\<rparr>"

section \<open>Fields of a sentence\<close>

text \<open>
  The first character of a token, and a comparison of its first characters: all of them must be inside the
  object, although \<open>memcmp\<close> may stop at the first that differs.
\<close>

definition token_char :: "token \<Rightarrow> u8 option" where
  "token_char tok = rd (tk_obj tok) (tk_p tok)"

definition token_is :: "token \<Rightarrow> bytes \<Rightarrow> bool option" where
  "token_is tok s =
     (if tk_p tok + length s \<le> length (tk_obj tok) then Some (take (length s) (drop (tk_p tok) (tk_obj tok)) = s) else None)"

definition token_int :: "token \<Rightarrow> int option" where
  "token_int tok = str2int (tk_obj tok) (tk_p tok) (tk_end tok)"

definition token_float :: "'d arith \<Rightarrow> token \<Rightarrow> 'd option" where
  "token_float ar tok = str2float ar (tk_obj tok) (tk_p tok) (tk_end tok)"

text \<open>Each update returns the result of the function, 0 or -1, and the reader.\<close>

definition nmea_reader_update_time :: "'d nmea_env \<Rightarrow> 'd NmeaReader \<Rightarrow> token \<Rightarrow> (int \<times> 'd NmeaReader) option" where
  "nmea_reader_update_time env r tok =
     (if tk_p tok + 6 > tk_end tok then Some (-1, r)
      else
        let (y, m, d) = ne_today env (nr_calls r);
            r = (if utc_year r < 0 then r\<lparr>utc_year := y + 1900, utc_mon := m + 1, utc_day := d\<rparr> else r)
        in do {
          hour \<leftarrow> str2int (tk_obj tok) (tk_p tok) (tk_p tok + 2);
          minute \<leftarrow> str2int (tk_obj tok) (tk_p tok + 2) (tk_p tok + 4);
          seconds \<leftarrow> str2float (ne_arith env) (tk_obj tok) (tk_p tok + 4) (tk_end tok);
          fix_time \<leftarrow> utc_mktime \<lparr>tm_sec = d_to_int (ne_arith env) seconds, tm_min = minute, tm_hour = hour,
            tm_mday = utc_day r, tm_mon = utc_mon r - 1, tm_year = utc_year r - 1900\<rparr>;
          Some (0, r\<lparr>nr_fix := (nr_fix r)\<lparr>timestamp := fix_time * 1000\<rparr>\<rparr>)
        })"

definition nmea_reader_update_cdate :: "'d NmeaReader \<Rightarrow> token \<Rightarrow> token \<Rightarrow> token \<Rightarrow> (int \<times> 'd NmeaReader) option" where
  "nmea_reader_update_cdate r tok_d tok_m tok_y =
     (if tk_p tok_d + 2 > tk_end tok_d \<or> tk_p tok_m + 2 > tk_end tok_m \<or> tk_p tok_y + 4 > tk_end tok_y then Some (-1, r)
      else do {
        day \<leftarrow> str2int (tk_obj tok_d) (tk_p tok_d) (tk_p tok_d + 2);
        mon \<leftarrow> str2int (tk_obj tok_m) (tk_p tok_m) (tk_p tok_m + 2);
        year \<leftarrow> str2int (tk_obj tok_y) (tk_p tok_y) (tk_end tok_y + 4);
        Some (0, r\<lparr>utc_day := day, utc_mon := mon, utc_year := year\<rparr>)
      })"

definition nmea_reader_update_date :: "'d nmea_env \<Rightarrow> 'd NmeaReader \<Rightarrow> token \<Rightarrow> token \<Rightarrow> (int \<times> 'd NmeaReader) option" where
  "nmea_reader_update_date env r date mtime =
     do {
       day \<leftarrow> str2int (tk_obj date) (tk_p date) (tk_p date + 2);
       mon \<leftarrow> str2int (tk_obj date) (tk_p date + 2) (tk_p date + 4);
       y \<leftarrow> str2int (tk_obj date) (tk_p date + 4) (tk_p date + 6);
       let year = y + 2000;
       if day OR mon OR year < 0 then Some (-1, r)
       else nmea_reader_update_time env (r\<lparr>utc_year := year, utc_mon := mon, utc_day := day\<rparr>) mtime
     }"

definition convert_from_hhmm :: "'d arith \<Rightarrow> token \<Rightarrow> 'd option" where
  "convert_from_hhmm ar tok =
     do {
       val \<leftarrow> token_float ar tok;
       let degrees = d_to_int ar (d_div ar (d_floor ar val) (d_lit ar 100));
       let minutes = d_sub ar val (d_mul ar (d_lit ar (of_int degrees)) (d_lit ar 100));
       Some (d_add ar (d_lit ar (of_int degrees)) (d_div ar minutes (d_lit ar 60)))
     }"

definition nmea_reader_update_latlong :: "'d arith \<Rightarrow> 'd NmeaReader \<Rightarrow> token \<Rightarrow> u8 \<Rightarrow> token \<Rightarrow> u8 \<Rightarrow> (int \<times> 'd NmeaReader) option" where
  "nmea_reader_update_latlong ar r lat_tok latitudeHemi lon_tok longitudeHemi =
     (if tk_p lat_tok + 6 > tk_end lat_tok then Some (-1, r)
      else do {
        lat \<leftarrow> convert_from_hhmm ar lat_tok;
        let lat = (if latitudeHemi = 0x53 then d_neg ar lat else lat);
        if tk_p lon_tok + 6 > tk_end lon_tok then Some (-1, r)
        else do {
          lon \<leftarrow> convert_from_hhmm ar lon_tok;
          let lon = (if longitudeHemi = 0x57 then d_neg ar lon else lon);
          Some (0, r\<lparr>nr_fix := (nr_fix r)\<lparr>loc_flags := loc_flags (nr_fix r) OR GPS_LOCATION_HAS_LAT_LONG,
            latitude := lat, longitude := lon\<rparr>\<rparr>)
        }
      })"

definition nmea_reader_update_altitude :: "'d arith \<Rightarrow> 'd NmeaReader \<Rightarrow> token \<Rightarrow> (int \<times> 'd NmeaReader) option" where
  "nmea_reader_update_altitude ar r tok =
     (if tk_p tok \<ge> tk_end tok then Some (-1, r)
      else do {
        alt \<leftarrow> token_float ar tok;
        Some (0, r\<lparr>nr_fix := (nr_fix r)\<lparr>loc_flags := loc_flags (nr_fix r) OR GPS_LOCATION_HAS_ALTITUDE, altitude := alt\<rparr>\<rparr>)
      })"

definition nmea_reader_update_accuracy :: "'d arith \<Rightarrow> 'd NmeaReader \<Rightarrow> token \<Rightarrow> (int \<times> 'd NmeaReader) option" where
  "nmea_reader_update_accuracy ar r tok =
     (if tk_p tok \<ge> tk_end tok then Some (-1, r)
      else do {
        acc \<leftarrow> token_float ar tok;
        let r = r\<lparr>nr_fix := (nr_fix r)\<lparr>accuracy := d_float ar acc\<rparr>\<rparr>;
        if d_eq ar (accuracy (nr_fix r)) (d_lit ar (9999 / 100)) then Some (0, r)
        else Some (0, r\<lparr>nr_fix := (nr_fix r)\<lparr>loc_flags := loc_flags (nr_fix r) OR GPS_LOCATION_HAS_ACCURACY\<rparr>\<rparr>)
      })"

definition nmea_reader_update_bearing :: "'d arith \<Rightarrow> 'd NmeaReader \<Rightarrow> token \<Rightarrow> (int \<times> 'd NmeaReader) option" where
  "nmea_reader_update_bearing ar r tok =
     (if tk_p tok \<ge> tk_end tok then Some (-1, r)
      else do {
        b \<leftarrow> token_float ar tok;
        Some (0, r\<lparr>nr_fix := (nr_fix r)\<lparr>loc_flags := loc_flags (nr_fix r) OR GPS_LOCATION_HAS_BEARING, bearing := d_float ar b\<rparr>\<rparr>)
      })"

definition nmea_reader_update_speed_meters :: "'d arith \<Rightarrow> 'd NmeaReader \<Rightarrow> token \<Rightarrow> (int \<times> 'd NmeaReader) option" where
  "nmea_reader_update_speed_meters ar r tok =
     (if tk_p tok \<ge> tk_end tok then Some (-1, r)
      else do {
        s \<leftarrow> token_float ar tok;
        let knots_to_meters = d_float ar (d_lit ar (514 / 1000));
        Some (0, r\<lparr>nr_fix := (nr_fix r)\<lparr>loc_flags := loc_flags (nr_fix r) OR GPS_LOCATION_HAS_SPEED,
          speed := d_float ar (d_mul ar (d_float ar s) knots_to_meters)\<rparr>\<rparr>)
      })"

definition nmea_reader_update_speed :: "'d arith \<Rightarrow> 'd NmeaReader \<Rightarrow> token \<Rightarrow> (int \<times> 'd NmeaReader) option" where
  "nmea_reader_update_speed ar r tok =
     (if tk_p tok \<ge> tk_end tok then Some (-1, r)
      else do {
        s \<leftarrow> token_float ar tok;
        Some (0, r\<lparr>nr_fix := (nr_fix r)\<lparr>loc_flags := loc_flags (nr_fix r) OR GPS_LOCATION_HAS_SPEED, speed := d_float ar s\<rparr>\<rparr>)
      })"

section \<open>Sentences\<close>

definition nmea_PUNV :: "'d arith \<Rightarrow> token list \<Rightarrow> 'd NmeaReader \<Rightarrow> 'd NmeaReader option" where
  "nmea_PUNV ar tzer r =
     do {
       let tok_cfg = nmea_tokenizer_get tzer 1;
       cfg \<leftarrow> token_is tok_cfg [0x43, 0x46, 0x47, 0x5F, 0x52];
       if cfg then Some r
       else do {
         qual \<leftarrow> token_is tok_cfg [0x51, 0x55, 0x41, 0x4C];
         if qual then do {
           c \<leftarrow> token_char (nmea_tokenizer_get tzer 3);
           if c \<noteq> 0x2C then do { (_, r) \<leftarrow> nmea_reader_update_accuracy ar r (nmea_tokenizer_get tzer 10); Some r }
           else Some r }
         else do { timemap \<leftarrow> token_is tok_cfg [0x54, 0x49, 0x4D, 0x45, 0x4D, 0x41, 0x50]; Some r }
       }
     }"

text \<open>The position, as the sentences that carry one give it.\<close>

definition nmea_position :: "'d arith \<Rightarrow> token list \<Rightarrow> int \<Rightarrow> 'd NmeaReader \<Rightarrow> 'd NmeaReader option" where
  "nmea_position ar tzer i r =
     do {
       lat \<leftarrow> token_char (nmea_tokenizer_get tzer (i + 1));
       lon \<leftarrow> token_char (nmea_tokenizer_get tzer (i + 3));
       (_, r) \<leftarrow> nmea_reader_update_latlong ar r (nmea_tokenizer_get tzer i) lat (nmea_tokenizer_get tzer (i + 2)) lon;
       Some r
     }"

definition nmea_GGA :: "'d nmea_env \<Rightarrow> token list \<Rightarrow> 'd NmeaReader \<Rightarrow> 'd NmeaReader option" where
  "nmea_GGA env tzer r =
     do {
       c \<leftarrow> token_char (nmea_tokenizer_get tzer 6);
       if uint c > 0x30 then do {
         (_, r) \<leftarrow> nmea_reader_update_time env r (nmea_tokenizer_get tzer 1);
         r \<leftarrow> nmea_position (ne_arith env) tzer 2 r;
         (_, r) \<leftarrow> nmea_reader_update_altitude (ne_arith env) r (nmea_tokenizer_get tzer 9);
         Some r }
       else Some r
     }"

definition nmea_GLL :: "'d nmea_env \<Rightarrow> token list \<Rightarrow> 'd NmeaReader \<Rightarrow> 'd NmeaReader option" where
  "nmea_GLL env tzer r =
     do {
       c \<leftarrow> token_char (nmea_tokenizer_get tzer 6);
       if c = 0x41 then do {
         (_, r) \<leftarrow> nmea_reader_update_time env r (nmea_tokenizer_get tzer 5);
         nmea_position (ne_arith env) tzer 1 r }
       else Some r
     }"

text \<open>The loop over the satellites of a \<open>GSA\<close> sentence, from token \<open>i\<close> on.\<close>

fun gsa_loop :: "token list \<Rightarrow> int \<Rightarrow> nat \<Rightarrow> 'd NmeaReader \<Rightarrow> 'd NmeaReader option" where
  "gsa_loop tzer i 0 r = Some r"
| "gsa_loop tzer i (Suc n) r =
     do {
       prn \<leftarrow> token_int (nmea_tokenizer_get tzer i);
       let r = (if prn > 0 \<and> prn < 33 then
           r\<lparr>sv_status := (sv_status r)\<lparr>used_in_fix_mask := used_in_fix_mask (sv_status r) OR push_bit (nat (prn - 1)) 1\<rparr>,
             sv_status_changed := True, gsa_fixed := True\<rparr>
         else r);
       gsa_loop tzer (i + 1) n r
     }"

definition nmea_GSA :: "token list \<Rightarrow> 'd NmeaReader \<Rightarrow> 'd NmeaReader option" where
  "nmea_GSA tzer r =
     do {
       c \<leftarrow> token_char (nmea_tokenizer_get tzer 2);
       if c \<noteq> 0 \<and> c \<noteq> 0x31 then
         gsa_loop tzer 3 12 (r\<lparr>sv_status := (sv_status r)\<lparr>used_in_fix_mask := 0\<rparr>\<rparr>)
       else if gsa_fixed r then
         Some (r\<lparr>sv_status := (sv_status r)\<lparr>used_in_fix_mask := 0\<rparr>, sv_status_changed := True, gsa_fixed := False\<rparr>)
       else Some r
     }"

text \<open>
  The loop over the satellites of a \<open>GSV\<close> sentence, with \<open>n\<close> turns left of the four and
  \<open>cur\<close> the index of the next entry of \<open>sv_list\<close>.
\<close>

fun gsv_loop :: "'d arith \<Rightarrow> token list \<Rightarrow> int \<Rightarrow> int \<Rightarrow> nat \<Rightarrow> int \<Rightarrow> 'd GpsSvStatus \<Rightarrow> 'd GpsSvStatus option" where
  "gsv_loop ar tzer noSatellites i 0 cur s = Some s"
| "gsv_loop ar tzer noSatellites i (Suc n) cur s =
     (if num_svs s < noSatellites then do {
        prn \<leftarrow> token_int (nmea_tokenizer_get tzer (i * 4 + 4));
        el \<leftarrow> token_float ar (nmea_tokenizer_get tzer (i * 4 + 5));
        az \<leftarrow> token_float ar (nmea_tokenizer_get tzer (i * 4 + 6));
        sn \<leftarrow> token_float ar (nmea_tokenizer_get tzer (i * 4 + 7));
        if 0 \<le> cur \<and> cur < int (length (sv_list s)) then
          gsv_loop ar tzer noSatellites (i + 1) n (cur + 1)
            (s\<lparr>sv_list := (sv_list s)[nat cur := \<lparr>sv_prn = prn, snr = d_float ar sn, elevation = d_float ar el, azimuth = d_float ar az\<rparr>],
               num_svs := num_svs s + 1\<rparr>)
        else None }
      else Some s)"

definition nmea_GSV :: "'d arith \<Rightarrow> token list \<Rightarrow> 'd NmeaReader \<Rightarrow> 'd NmeaReader option" where
  "nmea_GSV ar tzer r =
     do {
       noSatellites \<leftarrow> token_int (nmea_tokenizer_get tzer 3);
       if noSatellites > 0 then do {
         sentence \<leftarrow> token_int (nmea_tokenizer_get tzer 2);
         totalSentences \<leftarrow> token_int (nmea_tokenizer_get tzer 1);
         let r = (if sentence = 1 then r\<lparr>sv_status_changed := False, sv_status := (sv_status r)\<lparr>num_svs := 0\<rparr>\<rparr> else r);
         s \<leftarrow> gsv_loop ar tzer noSatellites 0 4 (num_svs (sv_status r)) (sv_status r);
         let r = r\<lparr>sv_status := s\<rparr>;
         Some (if sentence = totalSentences then r\<lparr>sv_status_changed := True\<rparr> else r) }
       else Some r
     }"

definition nmea_RMC :: "'d nmea_env \<Rightarrow> token list \<Rightarrow> 'd NmeaReader \<Rightarrow> 'd NmeaReader option" where
  "nmea_RMC env tzer r =
     do {
       c \<leftarrow> token_char (nmea_tokenizer_get tzer 2);
       if c = 0x41 then do {
         (_, r) \<leftarrow> nmea_reader_update_date env r (nmea_tokenizer_get tzer 9) (nmea_tokenizer_get tzer 1);
         r \<leftarrow> nmea_position (ne_arith env) tzer 3 r;
         (_, r) \<leftarrow> nmea_reader_update_bearing (ne_arith env) r (nmea_tokenizer_get tzer 8);
         (_, r) \<leftarrow> nmea_reader_update_speed_meters (ne_arith env) r (nmea_tokenizer_get tzer 7);
         Some r }
       else Some r
     }"

definition nmea_VTG :: "'d arith \<Rightarrow> token list \<Rightarrow> 'd NmeaReader \<Rightarrow> 'd NmeaReader option" where
  "nmea_VTG ar tzer r =
     do {
       c \<leftarrow> token_char (nmea_tokenizer_get tzer 9);
       if c \<noteq> 0 \<and> c \<noteq> 0x4E then do {
         (_, r) \<leftarrow> nmea_reader_update_bearing ar r (nmea_tokenizer_get tzer 1);
         (_, r) \<leftarrow> nmea_reader_update_speed_meters ar r (nmea_tokenizer_get tzer 5);
         Some r }
       else Some r
     }"

definition nmea_ZDA :: "'d nmea_env \<Rightarrow> token list \<Rightarrow> 'd NmeaReader \<Rightarrow> 'd NmeaReader option" where
  "nmea_ZDA env tzer r =
     do {
       y \<leftarrow> token_char (nmea_tokenizer_get tzer 4);
       (_, r) \<leftarrow> (if y \<noteq> 0
         then nmea_reader_update_cdate r (nmea_tokenizer_get tzer 2) (nmea_tokenizer_get tzer 3) (nmea_tokenizer_get tzer 4)
         else Some (0, r));
       t \<leftarrow> token_char (nmea_tokenizer_get tzer 1);
       (_, r) \<leftarrow> (if t \<noteq> 0 then nmea_reader_update_time env r (nmea_tokenizer_get tzer 1) else Some (0, r));
       Some r
     }"

text \<open>
  The choice of the sentence. The identifier is compared behind its first two characters, which
  name the talker; an identifier of fewer than five characters can only be \<open>PUNV\<close>. The result
  tells whether the parser went on to the end of the function.
\<close>

definition nmea_sentence :: "'d nmea_env \<Rightarrow> token list \<Rightarrow> 'd NmeaReader \<Rightarrow> (bool \<times> 'd NmeaReader) option" where
  "nmea_sentence env tzer r =
     (let tok = nmea_tokenizer_get tzer 0; ar = ne_arith env in
      if tk_p tok + 5 > tk_end tok then do {
        punv \<leftarrow> token_is tok [0x50, 0x55, 0x4E, 0x56];
        r \<leftarrow> (if punv then nmea_PUNV ar tzer r else Some r);
        Some (False, r) }
      else
        let tok = tok\<lparr>tk_p := tk_p tok + 2\<rparr>; is = (\<lambda>c. token_is tok c) in
        do {
          gga \<leftarrow> is [0x47, 0x47, 0x41]; gll \<leftarrow> is [0x47, 0x4C, 0x4C]; gsa \<leftarrow> is [0x47, 0x53, 0x41]; gsv \<leftarrow> is [0x47, 0x53, 0x56];
          rmc \<leftarrow> is [0x52, 0x4D, 0x43]; vtg \<leftarrow> is [0x56, 0x54, 0x47]; zda \<leftarrow> is [0x5A, 0x44, 0x41];
          r \<leftarrow> (if gga then nmea_GGA env tzer r
               else if gll then nmea_GLL env tzer r
               else if gsa then nmea_GSA tzer r
               else if gsv then nmea_GSV ar tzer r
               else if rmc then nmea_RMC env tzer r
               else if vtg then nmea_VTG ar tzer r
               else if zda then nmea_ZDA env tzer r
               else Some r);
          Some (True, r) })"

section \<open>The whole reader\<close>

text \<open>
  \<open>GpsState\<close>, as far as the reader uses it, with the callbacks that are installed and the calls
  made to them. \<open>STATE_QUIT\<close>, \<open>STATE_INIT\<close> and \<open>STATE_START\<close> are 0, 1 and 2.
\<close>

datatype gps_init = STATE_QUIT | STATE_INIT | STATE_START

datatype 'd gps_call =
    Nmea_cb bytes
  | Location_cb "'d GpsLocation"
  | Sv_status_cb "'d GpsSvStatus"
  | Status_cb int

record 'd GpsState =
  gs_init :: gps_init
  has_nmea_cb :: bool
  has_location_cb :: bool
  has_sv_status_cb :: bool
  has_status_cb :: bool
  fix_freq :: int
  first_fix :: bool
  gs_reader :: "'d NmeaReader"
  gs_calls :: "'d gps_call list"

definition nmea_reader_parse :: "'d nmea_env \<Rightarrow> 'd GpsState \<Rightarrow> 'd GpsState option" where
  "nmea_reader_parse env g =
     (let r = (gs_reader g)\<lparr>nr_calls := nr_calls (gs_reader g) + 1\<rparr>; g = g\<lparr>gs_reader := r\<rparr> in
      if nr_pos r < 9 then Some g
      else do {
        let g = (if has_nmea_cb g then g\<lparr>gs_calls := gs_calls g @ [Nmea_cb (take (nr_pos r) (nr_in r))]\<rparr> else g);
        tzer \<leftarrow> nmea_tokenizer_init (nr_in r) 0 (nr_pos r);
        (to_end, r) \<leftarrow> nmea_sentence env tzer r;
        let g = g\<lparr>gs_reader := r\<rparr>;
        if to_end \<and> \<not> first_fix g \<and> gs_init g = STATE_INIT \<and> loc_flags (nr_fix r) AND GPS_LOCATION_HAS_LAT_LONG \<noteq> 0
        then
          let g = (if has_location_cb g
                then g\<lparr>gs_calls := gs_calls g @ [Location_cb (nr_fix r)], gs_reader := r\<lparr>nr_fix := (nr_fix r)\<lparr>loc_flags := 0\<rparr>\<rparr>\<rparr>
                else g)
          in Some (g\<lparr>first_fix := True\<rparr>)
        else Some g
      })"

text \<open>One character.\<close>

definition nmea_reader_addc :: "'d nmea_env \<Rightarrow> 'd GpsState \<Rightarrow> u8 \<Rightarrow> 'd GpsState option" where
  "nmea_reader_addc env g c =
     (let r = gs_reader g in
      if nr_overflow r then Some (g\<lparr>gs_reader := r\<lparr>nr_overflow := c \<noteq> 0x0A\<rparr>\<rparr>)
      else if nr_pos r \<ge> NMEA_MAX_SIZE + 1 - 1 then Some (g\<lparr>gs_reader := r\<lparr>nr_overflow := True, nr_pos := 0\<rparr>\<rparr>)
      else do {
        buf \<leftarrow> wr (nr_in r) (nr_pos r) c;
        let r = r\<lparr>nr_in := buf, nr_pos := nr_pos r + 1\<rparr>;
        let g = g\<lparr>gs_reader := r\<rparr>;
        if c = 0x0A then do {
          g \<leftarrow> nmea_reader_parse env g;
          Some (g\<lparr>gs_reader := (gs_reader g)\<lparr>nr_pos := 0\<rparr>\<rparr>) }
        else Some g
      })"

text \<open>The bytes of a read, one after the other.\<close>

fun nmea_reader_feed :: "'d nmea_env \<Rightarrow> bytes \<Rightarrow> 'd GpsState \<Rightarrow> 'd GpsState option" where
  "nmea_reader_feed env [] g = Some g"
| "nmea_reader_feed env (c # cs) g = do { g \<leftarrow> nmea_reader_addc env g c; nmea_reader_feed env cs g }"

end
