(* ===== verification/Nmea_Delivery.thy ===== *)
theory Nmea_Delivery
  imports Nmea_Reader
begin

text \<open>
  What the NMEA reader does with the characters it is given: the shape of its state, the sentences
  it hands on, the satellites it stores, and the dates it gets wrong.
\<close>

section \<open>The shape of the state\<close>

definition sv_ok :: "'d GpsSvStatus \<Rightarrow> bool" where
  "sv_ok s = (length (sv_list s) = GPS_MAX_SVS \<and> 0 \<le> num_svs s \<and> num_svs s \<le> int GPS_MAX_SVS)"

definition reader_ok :: "'d NmeaReader \<Rightarrow> bool" where
  "reader_ok r = (length (nr_in r) = NMEA_MAX_SIZE + 1 \<and> nr_pos r \<le> NMEA_MAX_SIZE \<and> sv_ok (sv_status r))"

text \<open>
  The parts of the reader no sentence changes, with the satellites kept in shape. It is
  closed under composition, so a sentence keeps it if each of its updates does.
\<close>

definition reader_keeps :: "'d NmeaReader \<Rightarrow> 'd NmeaReader \<Rightarrow> bool" where
  "reader_keeps r r' = (nr_in r' = nr_in r \<and> nr_pos r' = nr_pos r \<and> nr_overflow r' = nr_overflow r \<and>
     nr_calls r' = nr_calls r \<and> (sv_ok (sv_status r) \<longrightarrow> sv_ok (sv_status r')))"

named_theorems keeps \<open>updates of the reader that keep its buffer and the shape of the satellites\<close>

lemma reader_keeps_refl [keeps]: "reader_keeps r r"
  by (simp add: reader_keeps_def)

lemma reader_keeps_trans: "reader_keeps r s \<Longrightarrow> reader_keeps s t \<Longrightarrow> reader_keeps r t"
  by (auto simp: reader_keeps_def)

lemma update_time_keeps [keeps]: "nmea_reader_update_time env r tok = Some (x, r') \<Longrightarrow> reader_keeps r r'"
  by (auto simp: nmea_reader_update_time_def Let_def bind_eq_Some_conv reader_keeps_def split: if_splits prod.splits)

lemma update_cdate_keeps [keeps]: "nmea_reader_update_cdate r d m y = Some (x, r') \<Longrightarrow> reader_keeps r r'"
  by (auto simp: nmea_reader_update_cdate_def bind_eq_Some_conv reader_keeps_def split: if_splits)

lemma update_date_keeps [keeps]: "nmea_reader_update_date env r d t = Some (x, r') \<Longrightarrow> reader_keeps r r'"
  by (auto simp: nmea_reader_update_date_def Let_def bind_eq_Some_conv reader_keeps_def split: if_splits dest!: update_time_keeps)

lemma update_latlong_keeps [keeps]: "nmea_reader_update_latlong ar r a b c d = Some (x, r') \<Longrightarrow> reader_keeps r r'"
  by (cases "convert_from_hhmm ar a"; cases "convert_from_hhmm ar c";
      cases "tk_p a + 6 > tk_end a"; cases "tk_p c + 6 > tk_end c")
    (auto simp: nmea_reader_update_latlong_def reader_keeps_def)

lemma update_altitude_keeps [keeps]: "nmea_reader_update_altitude ar r a = Some (x, r') \<Longrightarrow> reader_keeps r r'"
  by (auto simp: nmea_reader_update_altitude_def bind_eq_Some_conv reader_keeps_def split: if_splits)

lemma update_accuracy_keeps [keeps]: "nmea_reader_update_accuracy ar r a = Some (x, r') \<Longrightarrow> reader_keeps r r'"
  by (auto simp: nmea_reader_update_accuracy_def Let_def bind_eq_Some_conv reader_keeps_def split: if_splits)

lemma update_bearing_keeps [keeps]: "nmea_reader_update_bearing ar r a = Some (x, r') \<Longrightarrow> reader_keeps r r'"
  by (auto simp: nmea_reader_update_bearing_def bind_eq_Some_conv reader_keeps_def split: if_splits)

lemma update_speed_meters_keeps [keeps]: "nmea_reader_update_speed_meters ar r a = Some (x, r') \<Longrightarrow> reader_keeps r r'"
  by (auto simp: nmea_reader_update_speed_meters_def Let_def bind_eq_Some_conv reader_keeps_def split: if_splits)

lemma position_keeps [keeps]: "nmea_position ar tzer i r = Some r' \<Longrightarrow> reader_keeps r r'"
  by (auto simp: nmea_position_def bind_eq_Some_conv dest: update_latlong_keeps)

lemma gsa_loop_keeps [keeps]: "gsa_loop tzer i n r = Some r' \<Longrightarrow> reader_keeps r r'"
proof (induction n arbitrary: i r)
  case (Suc n)
  then obtain prn where "gsa_loop tzer (i + 1) n (if prn > 0 \<and> prn < 33 then
      r\<lparr>sv_status := (sv_status r)\<lparr>used_in_fix_mask := used_in_fix_mask (sv_status r) OR push_bit (nat (prn - 1)) 1\<rparr>,
        sv_status_changed := True, gsa_fixed := True\<rparr> else r) = Some r'"
    by (auto simp: bind_eq_Some_conv Let_def)
  from Suc.IH [OF this] show ?case by (auto simp: reader_keeps_def sv_ok_def split: if_splits)
qed (simp add: keeps)

text \<open>The loop of \<open>GSV\<close> writes the entries from \<open>num_svs\<close> on, and stays inside the list unless more satellites are announced than it holds.\<close>

lemma gsv_loop_turn:
  "gsv_loop ar tzer m i (Suc n) (num_svs s) s = Some s' \<Longrightarrow> num_svs s < m \<Longrightarrow>
   \<exists>x. 0 \<le> num_svs s \<and> num_svs s < int (length (sv_list s)) \<and>
     gsv_loop ar tzer m (i + 1) n (num_svs s + 1) (s\<lparr>sv_list := (sv_list s)[nat (num_svs s) := x], num_svs := num_svs s + 1\<rparr>) = Some s'"
  by (simp add: bind_eq_Some_conv split: if_splits) blast

lemma gsv_loop_ok:
  "gsv_loop ar tzer m i n (num_svs s) s = Some s' \<Longrightarrow> sv_ok s \<Longrightarrow> sv_ok s'"
proof (induction n arbitrary: i s)
  case (Suc n)
  show ?case
  proof (cases "num_svs s < m")
    case True
    from gsv_loop_turn [OF Suc.prems(1) True] obtain x where len: "num_svs s < int (length (sv_list s))"
      and run: "gsv_loop ar tzer m (i + 1) n (num_svs s + 1) (s\<lparr>sv_list := (sv_list s)[nat (num_svs s) := x], num_svs := num_svs s + 1\<rparr>) = Some s'"
      by blast
    let ?s = "s\<lparr>sv_list := (sv_list s)[nat (num_svs s) := x], num_svs := num_svs s + 1\<rparr>"
    have "sv_ok ?s" using Suc.prems(2) len by (simp add: sv_ok_def)
    moreover have "gsv_loop ar tzer m (i + 1) n (num_svs ?s) ?s = Some s'" using run by simp
    ultimately show ?thesis by (rule Suc.IH [rotated])
  qed (use Suc in simp)
qed simp

text \<open>The first sentence of a cycle starts the list again.\<close>

definition gsv_start :: "int \<Rightarrow> 'd NmeaReader \<Rightarrow> 'd NmeaReader" where
  "gsv_start sentence r =
     (if sentence = 1 then r\<lparr>sv_status_changed := False, sv_status := (sv_status r)\<lparr>num_svs := 0\<rparr>\<rparr> else r)"

lemma gsv_start_keeps [keeps]: "reader_keeps r (gsv_start sentence r)"
  by (simp add: gsv_start_def reader_keeps_def sv_ok_def)

lemma nmea_GSV_eq:
  "token_int (nmea_tokenizer_get tzer 3) = Some m \<Longrightarrow> m > 0 \<Longrightarrow>
   token_int (nmea_tokenizer_get tzer 2) = Some sentence \<Longrightarrow> token_int (nmea_tokenizer_get tzer 1) = Some sentences \<Longrightarrow>
   nmea_GSV ar tzer r =
     map_option (\<lambda>s. if sentence = sentences then (gsv_start sentence r)\<lparr>sv_status := s, sv_status_changed := True\<rparr>
         else (gsv_start sentence r)\<lparr>sv_status := s\<rparr>)
       (gsv_loop ar tzer m 0 4 (num_svs (sv_status (gsv_start sentence r))) (sv_status (gsv_start sentence r)))"
  by (cases "gsv_loop ar tzer m 0 4 (num_svs (sv_status (gsv_start sentence r))) (sv_status (gsv_start sentence r))")
    (simp_all add: nmea_GSV_def gsv_start_def [symmetric])

lemma gsv_keeps [keeps]: 
  assumes "nmea_GSV ar tzer r = Some r'"
  shows "reader_keeps r r'"
proof (cases "token_int (nmea_tokenizer_get tzer 3)")
  case (Some m)
  show ?thesis
  proof (cases "m > 0")
    case True
    with assms Some obtain sentence sentences where ints:
      "token_int (nmea_tokenizer_get tzer 2) = Some sentence" "token_int (nmea_tokenizer_get tzer 1) = Some sentences"
      by (cases "token_int (nmea_tokenizer_get tzer 2)"; cases "token_int (nmea_tokenizer_get tzer 1)") (simp_all add: nmea_GSV_def)
    let ?r = "gsv_start sentence r"
    from assms [unfolded nmea_GSV_eq [OF Some True ints] map_option_eq_Some] obtain s where
      run: "gsv_loop ar tzer m 0 4 (num_svs (sv_status ?r)) (sv_status ?r) = Some s"
      and r': "r' = (if sentence = sentences then ?r\<lparr>sv_status := s, sv_status_changed := True\<rparr> else ?r\<lparr>sv_status := s\<rparr>)"
      by blast
    have "reader_keeps ?r r'" using gsv_loop_ok [OF run] unfolding r' by (simp add: reader_keeps_def)
    with gsv_start_keeps show ?thesis by (rule reader_keeps_trans)
  qed (use assms Some in \<open>simp add: nmea_GSV_def keeps\<close>)
qed (use assms in \<open>simp add: nmea_GSV_def\<close>)

text \<open>The sentences.\<close>

lemma gsa_keeps [keeps]: "nmea_GSA tzer r = Some r' \<Longrightarrow> reader_keeps r r'"
  by (auto simp: nmea_GSA_def bind_eq_Some_conv split: if_splits dest!: gsa_loop_keeps)
    (auto simp: reader_keeps_def sv_ok_def)

lemma punv_keeps [keeps]: "nmea_PUNV ar tzer r = Some r' \<Longrightarrow> reader_keeps r r'"
  by (auto simp: nmea_PUNV_def bind_eq_Some_conv Let_def keeps split: if_splits)

lemma gga_keeps [keeps]: "nmea_GGA env tzer r = Some r' \<Longrightarrow> reader_keeps r r'"
  by (auto simp: nmea_GGA_def bind_eq_Some_conv keeps split: if_splits
      dest!: update_time_keeps position_keeps update_altitude_keeps intro: reader_keeps_trans)

lemma gll_keeps [keeps]: "nmea_GLL env tzer r = Some r' \<Longrightarrow> reader_keeps r r'"
  by (auto simp: nmea_GLL_def bind_eq_Some_conv keeps split: if_splits
      dest!: update_time_keeps position_keeps intro: reader_keeps_trans)

lemma rmc_keeps [keeps]: "nmea_RMC env tzer r = Some r' \<Longrightarrow> reader_keeps r r'"
  by (auto simp: nmea_RMC_def bind_eq_Some_conv keeps split: if_splits
      dest!: update_date_keeps position_keeps update_bearing_keeps update_speed_meters_keeps intro: reader_keeps_trans)

lemma vtg_keeps [keeps]: "nmea_VTG ar tzer r = Some r' \<Longrightarrow> reader_keeps r r'"
  by (auto simp: nmea_VTG_def bind_eq_Some_conv keeps split: if_splits
      dest!: update_bearing_keeps update_speed_meters_keeps intro: reader_keeps_trans)

lemma zda_keeps [keeps]: "nmea_ZDA env tzer r = Some r' \<Longrightarrow> reader_keeps r r'"
  by (auto simp: nmea_ZDA_def bind_eq_Some_conv keeps split: if_splits
      dest!: update_cdate_keeps update_time_keeps intro: reader_keeps_trans)

lemma sentence_keeps: "nmea_sentence env tzer r = Some (e, r') \<Longrightarrow> reader_keeps r r'"
  by (auto simp: nmea_sentence_def Let_def bind_eq_Some_conv split: if_splits intro: keeps)

section \<open>Characters and sentences\<close>

text \<open>The sentences handed to the callback.\<close>

fun nmea_lines :: "'d gps_call list \<Rightarrow> bytes list" where
  "nmea_lines [] = []"
| "nmea_lines (Nmea_cb l # cs) = l # nmea_lines cs"
| "nmea_lines (c # cs) = nmea_lines cs"

lemma nmea_lines_append [simp]: "nmea_lines (cs @ ds) = nmea_lines cs @ nmea_lines ds"
  by (induction cs rule: nmea_lines.induct) auto

text \<open>What a call of the parser leaves and what it hands on.\<close>

definition parse_effect :: "'d GpsState \<Rightarrow> 'd GpsState \<Rightarrow> bool" where
  "parse_effect g g' =
     (nr_in (gs_reader g') = nr_in (gs_reader g) \<and> nr_pos (gs_reader g') = nr_pos (gs_reader g) \<and>
      nr_overflow (gs_reader g') = nr_overflow (gs_reader g) \<and>
      (sv_ok (sv_status (gs_reader g)) \<longrightarrow> sv_ok (sv_status (gs_reader g'))) \<and>
      has_nmea_cb g' = has_nmea_cb g \<and>
      nmea_lines (gs_calls g') = nmea_lines (gs_calls g) @
        (if has_nmea_cb g \<and> 9 \<le> nr_pos (gs_reader g) then [take (nr_pos (gs_reader g)) (nr_in (gs_reader g))] else []))"

lemma nmea_reader_parse_effect:
  assumes "nmea_reader_parse env g = Some g'"
  shows "parse_effect g g'"
proof (cases "nr_pos (gs_reader g) < 9")
  case True
  with assms show ?thesis by (auto simp: nmea_reader_parse_def parse_effect_def)
next
  case False
  let ?r = "(gs_reader g)\<lparr>nr_calls := nr_calls (gs_reader g) + 1\<rparr>"
  from assms False obtain tzer e r where "nmea_tokenizer_init (nr_in ?r) 0 (nr_pos ?r) = Some tzer"
    and sentence: "nmea_sentence env tzer ?r = Some (e, r)"
    by (auto simp: nmea_reader_parse_def Let_def bind_eq_Some_conv)
  with assms False have "has_nmea_cb g' = has_nmea_cb g"
    "nmea_lines (gs_calls g') = nmea_lines (gs_calls g) @ (if has_nmea_cb g then [take (nr_pos (gs_reader g)) (nr_in (gs_reader g))] else [])"
    "gs_reader g' = r \<or> gs_reader g' = r\<lparr>nr_fix := (nr_fix r)\<lparr>loc_flags := 0\<rparr>\<rparr>"
    by (auto simp: nmea_reader_parse_def Let_def split: if_splits)
  moreover have "reader_keeps ?r r" by (rule sentence_keeps [OF sentence])
  ultimately show ?thesis using False by (auto simp: parse_effect_def reader_keeps_def)
qed

text \<open>The characters of a line before its end are stored one behind the other.\<close>

lemma feed_append: "nmea_reader_feed env (xs @ ys) g = do { g \<leftarrow> nmea_reader_feed env xs g; nmea_reader_feed env ys g }"
  by (induction xs arbitrary: g) (auto split: bind_splits)

definition stored :: "bytes \<Rightarrow> 'd GpsState \<Rightarrow> 'd GpsState" where
  "stored bs g = g\<lparr>gs_reader := (gs_reader g)\<lparr>
     nr_in := take (nr_pos (gs_reader g)) (nr_in (gs_reader g)) @ bs @ drop (nr_pos (gs_reader g) + length bs) (nr_in (gs_reader g)),
     nr_pos := nr_pos (gs_reader g) + length bs\<rparr>\<rparr>"

lemma stored_Cons:
  "nr_pos (gs_reader g) < length (nr_in (gs_reader g)) \<Longrightarrow> stored (c # bs) g = stored bs (stored [c] g)"
  by (simp add: stored_def min_def add.commute)

lemma stored_single:
  "nr_pos (gs_reader g) < length (nr_in (gs_reader g)) \<Longrightarrow>
   stored [c] g = g\<lparr>gs_reader := (gs_reader g)\<lparr>nr_in := (nr_in (gs_reader g))[nr_pos (gs_reader g) := c], nr_pos := nr_pos (gs_reader g) + 1\<rparr>\<rparr>"
  by (simp add: stored_def upd_conv_take_nth_drop)

lemma addc_stored:
  assumes "reader_ok (gs_reader g)" "\<not> nr_overflow (gs_reader g)" "nr_pos (gs_reader g) < NMEA_MAX_SIZE" "c \<noteq> 0x0A"
  shows "nmea_reader_addc env g c = Some (stored [c] g)"
  using assms by (simp add: nmea_reader_addc_def reader_ok_def stored_single wr_def Let_def)

lemma reader_ok_stored:
  "reader_ok (gs_reader g) \<Longrightarrow> nr_pos (gs_reader g) + length bs \<le> NMEA_MAX_SIZE \<Longrightarrow> reader_ok (gs_reader (stored bs g))"
  by (simp add: reader_ok_def stored_def)

lemma feed_stored:
  assumes "reader_ok (gs_reader g)" "\<not> nr_overflow (gs_reader g)" "nr_pos (gs_reader g) + length bs \<le> NMEA_MAX_SIZE" "0x0A \<notin> set bs"
  shows "nmea_reader_feed env bs g = Some (stored bs g)"
  using assms
proof (induction bs arbitrary: g)
  case Nil
  then show ?case by (simp add: stored_def)
next
  case (Cons c bs)
  let ?g = "stored [c] g"
  have "nmea_reader_feed env (c # bs) g = nmea_reader_feed env bs ?g"
    using Cons.prems by (simp add: addc_stored)
  also have "\<dots> = Some (stored bs ?g)"
    by (rule Cons.IH) (use Cons.prems reader_ok_stored [of g "[c]"] in \<open>auto simp: stored_def\<close>)
  also have "stored bs ?g = stored (c # bs) g" using Cons.prems by (subst stored_Cons [of g c]) (auto simp: reader_ok_def)
  finally show ?case .
qed

text \<open>A line the reader has room for: no line end but the last character, and at most 83 characters.\<close>

definition is_line :: "bytes \<Rightarrow> bool" where
  "is_line l = (l \<noteq> [] \<and> last l = 0x0A \<and> 0x0A \<notin> set (butlast l) \<and> length l \<le> NMEA_MAX_SIZE)"

definition at_line_start :: "'d GpsState \<Rightarrow> bool" where
  "at_line_start g = (reader_ok (gs_reader g) \<and> \<not> nr_overflow (gs_reader g) \<and> nr_pos (gs_reader g) = 0)"

lemma feed_line:
  assumes "at_line_start g" "is_line l"
  shows "nmea_reader_feed env l g =
    map_option (\<lambda>g. g\<lparr>gs_reader := (gs_reader g)\<lparr>nr_pos := 0\<rparr>\<rparr>) (nmea_reader_parse env (stored l g))"
proof -
  from assms(2) obtain b where l: "l = b @ [0x0A]" and b: "0x0A \<notin> set b" "length b < NMEA_MAX_SIZE"
    using append_butlast_last_id [of l] by (metis is_line_def length_append_singleton less_eq_Suc_le)
  let ?g = "stored b g"
  have "nmea_reader_feed env b g = Some ?g"
    by (rule feed_stored) (use assms(1) b in \<open>auto simp: at_line_start_def\<close>)
  then have run: "nmea_reader_feed env l g = nmea_reader_feed env [0x0A] ?g" unfolding l by (simp only: feed_append bind.bind_lunit)
  have ok: "reader_ok (gs_reader ?g)" "nr_pos (gs_reader ?g) = length b" "\<not> nr_overflow (gs_reader ?g)"
    using assms(1) b reader_ok_stored [of g b] by (auto simp: at_line_start_def stored_def)
  have "stored [0x0A] ?g = stored l g"
    unfolding l using assms(1) by (simp add: stored_def at_line_start_def add.commute min_def)
  with ok b stored_single [of ?g "0x0A"] show ?thesis
    unfolding run by (simp add: nmea_reader_addc_def reader_ok_def wr_def map_conv_bind_option Let_def comp_def)
qed

lemma feed_line_effect:
  assumes "at_line_start g" "is_line l" "nmea_reader_feed env l g = Some g'"
  shows "at_line_start g'" "has_nmea_cb g' = has_nmea_cb g"
    "nmea_lines (gs_calls g') = nmea_lines (gs_calls g) @ (if has_nmea_cb g \<and> 9 \<le> length l then [l] else [])"
proof -
  from assms(3) [unfolded feed_line [OF assms(1,2)] map_option_eq_Some] obtain h where
    h: "nmea_reader_parse env (stored l g) = Some h" "g' = h\<lparr>gs_reader := (gs_reader h)\<lparr>nr_pos := 0\<rparr>\<rparr>" by auto
  from nmea_reader_parse_effect [OF h(1)] assms(1,2) h(2)
  show "at_line_start g'" "has_nmea_cb g' = has_nmea_cb g"
    "nmea_lines (gs_calls g') = nmea_lines (gs_calls g) @ (if has_nmea_cb g \<and> 9 \<le> length l then [l] else [])"
    by (auto simp: parse_effect_def at_line_start_def is_line_def reader_ok_def stored_def)
qed

lemma feed_lines_effect:
  "at_line_start g \<Longrightarrow> list_all is_line ls \<Longrightarrow> nmea_reader_feed env (concat ls) g = Some g' \<Longrightarrow>
   at_line_start g' \<and> nmea_lines (gs_calls g') =
     nmea_lines (gs_calls g) @ (if has_nmea_cb g then filter (\<lambda>l. 9 \<le> length l) ls else [])"
proof (induction ls arbitrary: g)
  case (Cons l ls)
  from Cons.prems(3) obtain h where h: "nmea_reader_feed env l g = Some h" "nmea_reader_feed env (concat ls) h = Some g'"
    by (auto simp: feed_append bind_eq_Some_conv)
  from feed_line_effect [OF Cons.prems(1) _ h(1)] Cons.IH [OF _ _ h(2)] Cons.prems(2) show ?case by auto
qed simp

section \<open>Tokens in range\<close>

text \<open>A token of the sentence lies before the character behind the sentence, as does the token for a missing field.\<close>

definition token_ok :: "token \<Rightarrow> bool" where
  "token_ok t = (tk_p t \<le> tk_end t \<and> tk_end t < length (tk_obj t))"

lemma nmea_tokens_ok:
  assumes "e < length obj" "nmea_tokens obj p e tokens = Some ts" "list_all token_ok tokens"
  shows "list_all token_ok ts"
  using assms(2,3)
proof (induction "e - p" arbitrary: p tokens rule: less_induct)
  case less
  show ?case
  proof (cases "p < e")
    case True
    let ?w = "takeWhile (\<lambda>x. x \<noteq> 0x2C) (drop p (take e obj))"
    define q where "q = p + length ?w"
    define q' where "q' = (if q < e then q + 1 else q)"
    let ?ts = "if length tokens < 32 then tokens @ [\<lparr>tk_obj = obj, tk_p = p, tk_end = q\<rparr>] else tokens"
    have q: "p \<le> q" "q \<le> e" using length_takeWhile_le [of "\<lambda>x. x \<noteq> 0x2C" "drop p (take e obj)"] True assms(1) by (auto simp: q_def)
    have "nmea_tokens obj p e tokens = nmea_tokens obj q' e ?ts"
      unfolding q'_def using True assms(1) token_end_eq [of p e obj] by (subst nmea_tokens.simps) (simp add: q_def Let_def)
    with less.prems(1) have run: "nmea_tokens obj q' e ?ts = Some ts" by simp
    have "e - q' < e - p" using True q by (auto simp: q'_def)
    moreover have "list_all token_ok ?ts" using less.prems(2) q assms(1) by (simp add: token_ok_def)
    ultimately show ?thesis using less.hyps run by blast
  qed (use less.prems in \<open>simp add: nmea_tokens.simps [of obj p]\<close>)
qed

lemma tokenizer_ok:
  assumes "e < length obj" "nmea_tokenizer_init obj 0 e = Some ts"
  shows "list_all token_ok ts"
proof -
  from assms nmea_trim_eq [of 0 e obj] obtain p' e' where "e' \<le> e" "nmea_tokens obj p' e' [] = Some ts"
    by (auto simp: nmea_tokenizer_init_def)
  with assms(1) show ?thesis using nmea_tokens_ok [of e' obj p' "[]" ts] by simp
qed

lemma tokenizer_total:
  assumes "e \<le> length obj"
  shows "\<exists>ts. nmea_tokenizer_init obj 0 e = Some ts"
proof -
  from assms nmea_trim_eq [of 0 e obj] obtain p' e' where "e' \<le> e" "nmea_trim obj 0 e = Some (p', e')" by auto
  with assms nmea_tokens_eq [of e' obj p' "[]"] show ?thesis by (auto simp: nmea_tokenizer_init_def)
qed

lemma token_get_ok: "list_all token_ok ts \<Longrightarrow> token_ok (nmea_tokenizer_get ts i)"
  by (auto simp: nmea_tokenizer_get_def token_ok_def list_all_length)

lemma token_float_ok: "token_ok t \<Longrightarrow> \<exists>d. token_float ar t = Some d"
  by (auto simp: token_float_def str2float_def token_ok_def Let_def memcpy_at_def wr_def)

text \<open>The satellites fit exactly if the list is not longer than announced and announced to fit.\<close>

lemma gsv_loop_None_iff:
  assumes "list_all token_ok tzer" "\<And>j. i \<le> j \<Longrightarrow> j < i + int n \<Longrightarrow> token_int (nmea_tokenizer_get tzer (j * 4 + 4)) \<noteq> None" "sv_ok s"
  shows "gsv_loop ar tzer m i n (num_svs s) s = None \<longleftrightarrow> int GPS_MAX_SVS < min m (num_svs s + int n)"
  using assms(2,3)
proof (induction n arbitrary: i s)
  case 0
  then show ?case by (simp add: sv_ok_def)
next
  case (Suc n)
  show ?case
  proof (cases "num_svs s < m")
    case True
    from Suc.prems(1) [of i] obtain prn where prn: "token_int (nmea_tokenizer_get tzer (i * 4 + 4)) = Some prn" by auto
    define f where "f j = the (token_float ar (nmea_tokenizer_get tzer j))" for j
    have f: "token_float ar (nmea_tokenizer_get tzer j) = Some (f j)" for j
      using token_float_ok [OF token_get_ok [OF assms(1)], of ar j] by (auto simp: f_def)
    show ?thesis
    proof (cases "num_svs s < 32")
      case True
      let ?x = "\<lparr>sv_prn = prn, snr = d_float ar (f (i * 4 + 7)), elevation = d_float ar (f (i * 4 + 5)), azimuth = d_float ar (f (i * 4 + 6))\<rparr>"
      let ?s = "s\<lparr>sv_list := (sv_list s)[nat (num_svs s) := ?x], num_svs := num_svs s + 1\<rparr>"
      have "sv_ok ?s" using Suc.prems(2) True by (simp add: sv_ok_def)
      with Suc.IH [of "i + 1" ?s] Suc.prems(1) have
        "gsv_loop ar tzer m (i + 1) n (num_svs ?s) ?s = None \<longleftrightarrow> 32 < min m (num_svs ?s + int n)" by simp
      then show ?thesis using True \<open>num_svs s < m\<close> prn f Suc.prems(2) by (simp add: sv_ok_def add.commute)
    qed (use True prn f Suc.prems(2) in \<open>simp add: sv_ok_def\<close>)
  qed (use Suc.prems(2) in \<open>simp add: sv_ok_def\<close>)
qed

section \<open>Properties\<close>

text \<open>A state to evaluate on: the reader as \<open>nmea_reader_init\<close> leaves it, and arithmetic on one value.\<close>

definition unit_arith :: "unit arith" where
  "unit_arith = \<lparr>d_strtod = \<lambda>_. (), d_lit = \<lambda>_. (), d_add = \<lambda>_ _. (), d_sub = \<lambda>_ _. (), d_mul = \<lambda>_ _. (), d_div = \<lambda>_ _. (),
     d_neg = \<lambda>_. (), d_floor = \<lambda>_. (), d_eq = \<lambda>_ _. True, d_to_int = \<lambda>_. 0, d_float = \<lambda>_. ()\<rparr>"

definition unit_env :: "unit nmea_env" where
  "unit_env = \<lparr>ne_arith = unit_arith, ne_today = \<lambda>_. (112, 0, 1)\<rparr>"

definition idle_gps :: "unit GpsState" where
  "idle_gps = \<lparr>gs_init = STATE_INIT, has_nmea_cb = True, has_location_cb = True, has_sv_status_cb = True, has_status_cb = True,
     fix_freq = -1, first_fix = False, gs_reader = nmea_reader_init (), gs_calls = []\<rparr>"

definition full_gsv :: "unit NmeaReader" where
  "full_gsv = (nmea_reader_init ())\<lparr>nr_in := [0x47, 0x50, 0x47, 0x53, 0x56, 0x2C, 0x39, 0x2C, 0x39, 0x2C, 0x33, 0x33, 0x2C, 0x31, 0x0A] @ replicate 69 0, nr_pos := 15,
     sv_status := (sv_status (nmea_reader_init ()))\<lparr>num_svs := 32\<rparr>\<rparr>"

definition zda_tokens :: "token list" where
  "zda_tokens = the (nmea_tokenizer_init [0x47, 0x50, 0x5A, 0x44, 0x41, 0x2C, 0x31, 0x32, 0x33, 0x35, 0x31, 0x39, 0x2C, 0x30, 0x31, 0x2C, 0x30, 0x32, 0x2C, 0x32, 0x30, 0x31, 0x32, 0x2C, 0x30, 0x30, 0x0A, 0x00] 0 27)"

definition date_token :: token where
  "date_token = \<lparr>tk_obj = [0x30, 0x31, 0x39, 0x39, 0x31, 0x32, 0x2C], tk_p = 0, tk_end = 6\<rparr>"

lemma idle_gps_start: "at_line_start idle_gps"
  by (simp add: at_line_start_def idle_gps_def nmea_reader_init_def reader_ok_def sv_ok_def)

text \<open>
  C11. The reader is kept in shape by every character: its position never leaves the buffer, and the
  satellites stay within their list. The buffer is never written outside; the only fault a
  character can lead to is in the handling of a complete sentence of at least nine characters.
\<close>

theorem nmea_reader_addc_safe:
  assumes "reader_ok (gs_reader g)"
  shows "case nmea_reader_addc env g c of
    None \<Rightarrow> c = 0x0A \<and> 9 \<le> nr_pos (gs_reader (stored [c] g)) \<and>
      (\<exists>tzer. nmea_tokenizer_init (nr_in (gs_reader (stored [c] g))) 0 (nr_pos (gs_reader (stored [c] g))) = Some tzer \<and>
        nmea_sentence env tzer ((gs_reader (stored [c] g))\<lparr>nr_calls := nr_calls (gs_reader g) + 1\<rparr>) = None)
  | Some g' \<Rightarrow> reader_ok (gs_reader g')"
proof (cases "nr_overflow (gs_reader g) \<or> nr_pos (gs_reader g) \<ge> NMEA_MAX_SIZE \<or> c \<noteq> 0x0A")
  case True
  then show ?thesis using assms by (auto simp: nmea_reader_addc_def reader_ok_def wr_def Let_def)
next
  case False
  let ?g = "stored [c] g"
  let ?r = "(gs_reader ?g)\<lparr>nr_calls := nr_calls (gs_reader ?g) + 1\<rparr>"
  have ok: "reader_ok (gs_reader ?g)" using assms False by (intro reader_ok_stored) auto
  have run: "nmea_reader_addc env g c = map_option (\<lambda>g. g\<lparr>gs_reader := (gs_reader g)\<lparr>nr_pos := 0\<rparr>\<rparr>) (nmea_reader_parse env ?g)"
    using assms False stored_single [of g c]
    by (simp add: nmea_reader_addc_def reader_ok_def wr_def map_conv_bind_option Let_def comp_def)
  from ok tokenizer_total [of "nr_pos (gs_reader ?g)" "nr_in (gs_reader ?g)"] obtain tzer where
    tzer: "nmea_tokenizer_init (nr_in (gs_reader ?g)) 0 (nr_pos (gs_reader ?g)) = Some tzer" by (auto simp: reader_ok_def)
  show ?thesis
  proof (cases "nmea_reader_parse env ?g")
    case None
    then have "9 \<le> nr_pos (gs_reader ?g)" "nmea_sentence env tzer ?r = None"
      using tzer by (auto simp: nmea_reader_parse_def Let_def split: if_splits bind_splits)
    with None run tzer False show ?thesis by (auto simp: stored_def)
  next
    case (Some h)
    with nmea_reader_parse_effect [OF Some] ok show ?thesis unfolding run by (auto simp: parse_effect_def reader_ok_def)
  qed
qed

theorem nmea_reader_addc_safe_witness: "reader_ok (gs_reader (the (nmea_reader_addc unit_env idle_gps 0x24)))"
  using nmea_reader_addc_safe [where g = idle_gps and env = unit_env and c = "0x24"] idle_gps_start
  by (simp add: at_line_start_def nmea_reader_addc_def idle_gps_def nmea_reader_init_def wr_def Let_def)

text \<open>
  C10. Whatever the sentences, the callback for raw sentences gets every line of at least nine and at
  most 83 characters, once, unchanged and in order, however the bytes were split into reads; shorter
  lines are dropped, and the reader is ready for the next line at the end.
\<close>

theorem nmea_lines_delivered:
  assumes "at_line_start g" "has_nmea_cb g" "list_all is_line ls" "concat rs = concat ls"
    and "fold (\<lambda>r s. s \<bind> nmea_reader_feed env r) rs (Some g) = Some g'"
  shows "at_line_start g' \<and> nmea_lines (gs_calls g') = nmea_lines (gs_calls g) @ filter (\<lambda>l. 9 \<le> length l) ls"
proof -
  have reads: "fold (\<lambda>r s. s \<bind> nmea_reader_feed env r) rs s = s \<bind> nmea_reader_feed env (concat rs)" for s
    by (induction rs arbitrary: s) (auto simp: feed_append split: bind_splits)
  have "nmea_reader_feed env (concat ls) g = Some g'" using assms(4,5) unfolding reads by simp
  from feed_lines_effect [OF assms(1,3) this] assms(2) show ?thesis by simp
qed

theorem nmea_lines_delivered_witness:
  "nmea_lines (gs_calls (the (fold (\<lambda>r s. s \<bind> nmea_reader_feed unit_env r) [[0x24, 0x47, 0x50, 0x41], [0x42, 0x43, 0x2C, 0x31, 0x0A, 0x0A]] (Some idle_gps)))) =
   [[0x24, 0x47, 0x50, 0x41, 0x42, 0x43, 0x2C, 0x31, 0x0A]]"
proof -
  let ?rs = "[[0x24, 0x47, 0x50, 0x41], [0x42, 0x43, 0x2C, 0x31, 0x0A, 0x0A]] :: bytes list"
  have "\<not> Option.is_none (fold (\<lambda>r s. s \<bind> nmea_reader_feed unit_env r) ?rs (Some idle_gps))" by code_simp
  then obtain g where g: "fold (\<lambda>r s. s \<bind> nmea_reader_feed unit_env r) ?rs (Some idle_gps) = Some g"
    by (auto simp: Option.is_none_def)
  have "has_nmea_cb idle_gps" "gs_calls idle_gps = []" by (simp_all add: idle_gps_def)
  with nmea_lines_delivered [OF idle_gps_start _ _ _ g, of "[[0x24, 0x47, 0x50, 0x41, 0x42, 0x43, 0x2C, 0x31, 0x0A], [0x0A]]"]
  show ?thesis unfolding g by (simp add: is_line_def)
qed

text \<open>The rest of a line that was too long is skipped up to its end.\<close>

lemma feed_skip:
  "nr_overflow (gs_reader g) \<Longrightarrow> 0x0A \<notin> set bs \<Longrightarrow>
   nmea_reader_feed env (bs @ [0x0A]) g = Some (g\<lparr>gs_reader := (gs_reader g)\<lparr>nr_overflow := False\<rparr>\<rparr>)"
proof (induction bs arbitrary: g)
  case (Cons b bs)
  from Cons.IH [of "g\<lparr>gs_reader := (gs_reader g)\<lparr>nr_overflow := True\<rparr>\<rparr>"] Cons.prems
  show ?case by (simp add: nmea_reader_addc_def Let_def)
qed (simp add: nmea_reader_addc_def Let_def)

text \<open>
  C38. A line of exactly 84 characters takes the line behind it with it: its line end is the character
  the buffer has no room for, so it is dropped without ending the overflow, and everything up to the
  next line end is skipped. Neither line reaches the parser or a callback.
\<close>

theorem nmea_full_line_swallows_next:
  assumes "at_line_start g" "length bs = NMEA_MAX_SIZE" "0x0A \<notin> set bs" "0x0A \<notin> set next_line"
  shows "\<exists>g'. nmea_reader_feed env ((bs @ [0x0A]) @ (next_line @ [0x0A])) g = Some g' \<and> at_line_start g' \<and>
    gs_calls g' = gs_calls g \<and> nr_calls (gs_reader g') = nr_calls (gs_reader g)"
proof -
  let ?g = "stored bs g"
  let ?h = "?g\<lparr>gs_reader := (gs_reader ?g)\<lparr>nr_overflow := True, nr_pos := 0\<rparr>\<rparr>"
  have run: "nmea_reader_feed env bs g = Some ?g"
    by (rule feed_stored) (use assms in \<open>auto simp: at_line_start_def\<close>)
  have ok: "reader_ok (gs_reader ?g)" "nr_pos (gs_reader ?g) = NMEA_MAX_SIZE" "\<not> nr_overflow (gs_reader ?g)"
    using assms reader_ok_stored [of g bs] by (auto simp: at_line_start_def stored_def)
  then have "nmea_reader_addc env ?g 0x0A = Some ?h" by (simp add: nmea_reader_addc_def)
  moreover have "nmea_reader_feed env (next_line @ [0x0A]) ?h = Some (?h\<lparr>gs_reader := (gs_reader ?h)\<lparr>nr_overflow := False\<rparr>\<rparr>)"
    by (rule feed_skip) (use assms(4) in auto)
  ultimately have "nmea_reader_feed env ((bs @ [0x0A]) @ (next_line @ [0x0A])) g = Some (?h\<lparr>gs_reader := (gs_reader ?h)\<lparr>nr_overflow := False\<rparr>\<rparr>)"
    unfolding feed_append run by simp
  with ok show ?thesis by (simp add: at_line_start_def reader_ok_def stored_def)
qed

theorem nmea_full_line_swallows_next_witness:
  "\<exists>g'. nmea_reader_feed unit_env ((replicate 83 0x41 @ [0x0A]) @ ([0x24, 0x47, 0x50, 0x41, 0x42, 0x43, 0x2C, 0x31] @ [0x0A])) idle_gps = Some g' \<and>
     gs_calls g' = []"
  using nmea_full_line_swallows_next [where g = idle_gps and bs = "replicate 83 0x41" and next_line = "[0x24, 0x47, 0x50, 0x41, 0x42, 0x43, 0x2C, 0x31]" and env = unit_env]
    idle_gps_start by (auto simp: idle_gps_def)

text \<open>
  C27. A \<open>GSV\<close> sentence writes outside the list of 32 satellites exactly if it announces more than 32
  and the sentences so far, with the four of this one, go beyond the list: nothing but the number
  in the sentence limits the index.
\<close>

theorem nmea_GSV_fault_iff:
  assumes "reader_ok r" "nmea_tokenizer_init (nr_in r) 0 (nr_pos r) = Some tzer"
    and "token_int (nmea_tokenizer_get tzer 3) = Some noSatellites" "noSatellites > 0"
    and "token_int (nmea_tokenizer_get tzer 2) = Some sentence" "token_int (nmea_tokenizer_get tzer 1) = Some sentences"
    and "\<And>i. 0 \<le> i \<Longrightarrow> i < 4 \<Longrightarrow> token_int (nmea_tokenizer_get tzer (i * 4 + 4)) \<noteq> None"
  shows "nmea_GSV ar tzer r = None \<longleftrightarrow>
    int GPS_MAX_SVS < min noSatellites ((if sentence = 1 then 0 else num_svs (sv_status r)) + 4)"
proof -
  have "list_all token_ok tzer" by (rule tokenizer_ok [OF _ assms(2)]) (use assms(1) in \<open>simp add: reader_ok_def\<close>)
  moreover have "sv_ok (sv_status (gsv_start sentence r))" using assms(1) by (simp add: gsv_start_def reader_ok_def sv_ok_def)
  ultimately have "gsv_loop ar tzer noSatellites 0 4 (num_svs (sv_status (gsv_start sentence r))) (sv_status (gsv_start sentence r)) = None \<longleftrightarrow>
      int GPS_MAX_SVS < min noSatellites (num_svs (sv_status (gsv_start sentence r)) + int 4)"
    by (intro gsv_loop_None_iff) (use assms(7) in auto)
  then show ?thesis unfolding nmea_GSV_eq [OF assms(3-6)] by (simp add: gsv_start_def)
qed

theorem nmea_GSV_fault_iff_witness:
  "nmea_GSV unit_arith (the (nmea_tokenizer_init (nr_in full_gsv) 0 (nr_pos full_gsv))) full_gsv = None"
proof -
  let ?t = "the (nmea_tokenizer_init (nr_in full_gsv) 0 (nr_pos full_gsv))"
  have r: "reader_ok full_gsv" "num_svs (sv_status full_gsv) = 32"
    by (simp_all add: full_gsv_def nmea_reader_init_def reader_ok_def sv_ok_def)
  then have t: "nmea_tokenizer_init (nr_in full_gsv) 0 (nr_pos full_gsv) = Some ?t"
    using tokenizer_total [of "nr_pos full_gsv" "nr_in full_gsv"] by (auto simp: reader_ok_def)
  have ints: "token_int (nmea_tokenizer_get ?t 3) = Some 33" "token_int (nmea_tokenizer_get ?t 2) = Some 9"
    "token_int (nmea_tokenizer_get ?t 1) = Some 9" by code_simp+
  have prns: "token_int (nmea_tokenizer_get ?t (0 * 4 + 4)) \<noteq> None" "token_int (nmea_tokenizer_get ?t (1 * 4 + 4)) \<noteq> None"
    "token_int (nmea_tokenizer_get ?t (2 * 4 + 4)) \<noteq> None" "token_int (nmea_tokenizer_get ?t (3 * 4 + 4)) \<noteq> None" by code_simp+
  have "token_int (nmea_tokenizer_get ?t (i * 4 + 4)) \<noteq> None" if "0 \<le> i" "i < 4" for i
  proof -
    from that have "i = 0 \<or> i = 1 \<or> i = 2 \<or> i = 3" by auto
    then show ?thesis using prns by (elim disjE) (simp_all only: simp_thms)
  qed
  from nmea_GSV_fault_iff [OF r(1) t ints(1) _ ints(2,3) this, of unit_arith] r(2) show ?thesis by simp
qed

lemma str2int_loop_nondigit: "p < length obj \<Longrightarrow> uint (obj ! p) < 0x30 \<Longrightarrow> 0 < n \<Longrightarrow> str2int_loop obj p n r = Some (-1)"
  by (cases n) (simp_all add: rd_def)

text \<open>
  C39. The date of a \<open>ZDA\<close> sentence is never used: the year is read up to four characters behind its
  end, where the comma is, so that it becomes -1, and the time is then completed with the date of
  the host, as if the sentence had none.
\<close>

theorem nmea_ZDA_date_lost:
  assumes "1000 \<le> y" "y \<le> 9999" "token_text tok_y = decimal y" "token_ok tok_y" "tk_obj tok_y ! tk_end tok_y = 0x2C"
    and "tok_y = nmea_tokenizer_get tzer 4" "tok_d = nmea_tokenizer_get tzer 2" "tok_m = nmea_tokenizer_get tzer 3" "tok = nmea_tokenizer_get tzer 1"
    and "tk_p tok_d + 2 \<le> tk_end tok_d" "str2int (tk_obj tok_d) (tk_p tok_d) (tk_p tok_d + 2) = Some d"
    and "tk_p tok_m + 2 \<le> tk_end tok_m" "str2int (tk_obj tok_m) (tk_p tok_m) (tk_p tok_m + 2) = Some m"
    and "tk_p tok + 6 \<le> tk_end tok" "token_char tok = Some c" "c \<noteq> 0"
  shows "nmea_ZDA env tzer r = map_option snd (nmea_reader_update_time env (r\<lparr>utc_year := -1\<rparr>) tok)"
proof -
  let ?o = "tk_obj tok_y" and ?p = "tk_p tok_y"
  have "y div 1000 < 10" "\<not> y div 100 < 10" "\<not> y div 10 < 10" "\<not> y < 10" using assms(1,2) by auto
  then have len: "length (decimal y) = 4"
    by (simp add: decimal.simps [of y] decimal.simps [of "y div 10"] decimal.simps [of "y div 100"] decimal.simps [of "y div 1000"] div_mult2_eq [symmetric])
  have "tk_end tok_y - ?p = 4" using arg_cong [OF assms(3), of length] assms(4) len by (simp add: token_text_def token_ok_def)
  then have pe: "tk_end tok_y = ?p + 4" "?p + 4 < length ?o" using assms(4) by (auto simp: token_ok_def)
  have digits: "take (length (decimal y)) (drop ?p ?o) = decimal y"
    using assms(3) unfolding len token_text_def pe by (simp add: drop_take)
  have num: "str2int_loop ?o ?p (length (decimal y)) 0 = Some (int y)"
    by (rule str2int_loop_decimal [OF _ digits]) (use pe len assms(2) in auto)
  from str2int_loop_append [OF _ digits num, of 4] pe len have "str2int_loop ?o ?p 8 0 = str2int_loop ?o (?p + 4) 4 (int y)" by simp
  also have "\<dots> = Some (-1)" by (rule str2int_loop_nondigit) (use pe assms(5) in auto)
  finally have "str2int ?o ?p (tk_end tok_y + 4) = Some (-1)" using pe(1) by (simp add: str2int_def)
  then have date: "nmea_reader_update_cdate r tok_d tok_m tok_y = Some (0, r\<lparr>utc_day := d, utc_mon := m, utc_year := -1\<rparr>)"
    using pe assms(10-13) by (simp add: nmea_reader_update_cdate_def)
  have b: "token_char tok_y = Some (?o ! ?p)" "?o ! ?p \<noteq> 0"
    using num pe(2) str2int_loop_nondigit [of ?p ?o 4 0] unfolding len by (auto simp: token_char_def rd_def)
  have "nmea_reader_update_time env (r\<lparr>utc_day := d, utc_mon := m, utc_year := -1\<rparr>) tok =
      nmea_reader_update_time env (r\<lparr>utc_year := -1\<rparr>) tok"
    using assms(14) by (simp add: nmea_reader_update_time_def Let_def split: prod.splits)
  then show ?thesis using date b assms(15,16) unfolding nmea_ZDA_def assms(6-9) [symmetric]
    by (simp add: map_conv_bind_option comp_def split_def)
qed

theorem nmea_ZDA_date_lost_witness:
  "nmea_ZDA unit_env zda_tokens (nmea_reader_init ()) =
     map_option snd (nmea_reader_update_time unit_env ((nmea_reader_init ())\<lparr>utc_year := -1\<rparr>) (nmea_tokenizer_get zda_tokens 1))"
proof (rule nmea_ZDA_date_lost [where y = 2012, OF _ _ _ _ _ refl refl refl refl])
  show "token_text (nmea_tokenizer_get zda_tokens 4) = decimal 2012" by code_simp
  show "token_ok (nmea_tokenizer_get zda_tokens 4)" by code_simp
  show "tk_obj (nmea_tokenizer_get zda_tokens 4) ! tk_end (nmea_tokenizer_get zda_tokens 4) = 0x2C" by code_simp
  show "tk_p (nmea_tokenizer_get zda_tokens 2) + 2 \<le> tk_end (nmea_tokenizer_get zda_tokens 2)" by code_simp
  show "tk_p (nmea_tokenizer_get zda_tokens 3) + 2 \<le> tk_end (nmea_tokenizer_get zda_tokens 3)" by code_simp
  show "tk_p (nmea_tokenizer_get zda_tokens 1) + 6 \<le> tk_end (nmea_tokenizer_get zda_tokens 1)" by code_simp
  show "str2int (tk_obj (nmea_tokenizer_get zda_tokens 2)) (tk_p (nmea_tokenizer_get zda_tokens 2)) (tk_p (nmea_tokenizer_get zda_tokens 2) + 2) = Some 1"
    by code_simp
  show "str2int (tk_obj (nmea_tokenizer_get zda_tokens 3)) (tk_p (nmea_tokenizer_get zda_tokens 3)) (tk_p (nmea_tokenizer_get zda_tokens 3) + 2) = Some 2"
    by code_simp
  show "token_char (nmea_tokenizer_get zda_tokens 1) = Some 0x31" by code_simp
qed simp_all

text \<open>
  The month of an \<open>RMC\<close> sentence is not checked: from 14 on the calendar reads past the end of its
  table of months.
\<close>

lemma nmea_date_month_fault:
  assumes "str2int (tk_obj date) (tk_p date) (tk_p date + 2) = Some day" "0 \<le> day"
    and "str2int (tk_obj date) (tk_p date + 2) (tk_p date + 4) = Some mon" "14 \<le> mon"
    and "str2int (tk_obj date) (tk_p date + 4) (tk_p date + 6) = Some year" "0 \<le> year"
    and "tk_p mtime + 6 \<le> tk_end mtime"
  shows "nmea_reader_update_date env r date mtime = None"
proof -
  have "\<not> day OR mon OR (year + 2000) < 0" using assms by simp
  then show ?thesis using assms utc_mktime_month_out_of_table
    by (simp add: nmea_reader_update_date_def nmea_reader_update_time_def Let_def split: prod.splits bind_splits)
qed

lemma nmea_date_month_fault_example:
  "nmea_reader_update_date unit_env (nmea_reader_init ()) date_token date_token = None"
  by (rule nmea_date_month_fault [where day = 1 and mon = 99 and year = 12]; code_simp)

end
