(* ===== verification/Gps_State.thy ===== *)
theory Gps_State
  imports Nmea_Delivery
begin

text \<open>
  The threads and the interface of the GPS driver in
  \<^verbatim>\<open>src/hardware/mx5x/libgps/tractor_gps.c\<close>: the thread that takes commands and sentences, the timer
  thread that reports fixes, and the functions the location service calls. The interleaving of
  the threads is a step relation; what they do under the lock is one step.
\<close>

section \<open>The thread for commands and sentences\<close>

definition CMD_QUIT :: u8 where "CMD_QUIT = 0"
definition CMD_START :: u8 where "CMD_START = 1"
definition CMD_STOP :: u8 where "CMD_STOP = 2"

abbreviation GPS_STATUS_SESSION_BEGIN :: int where "GPS_STATUS_SESSION_BEGIN \<equiv> 1"
abbreviation GPS_STATUS_SESSION_END :: int where "GPS_STATUS_SESSION_END \<equiv> 2"

lemmas gps_commands = CMD_QUIT_def CMD_START_def CMD_STOP_def

definition GPS_STATUS_CB :: "int \<Rightarrow> 'd GpsState \<Rightarrow> 'd GpsState" where
  "GPS_STATUS_CB v g = (if has_status_cb g then g\<lparr>gs_calls := gs_calls g @ [Status_cb v]\<rparr> else g)"

text \<open>
  Where the two threads are: the first can be in its loop, in \<open>pthread_join\<close> or gone; the timer at
  the start of its loop, behind the unlock, perhaps asleep for some seconds, or gone.
\<close>

datatype gps_thread = Running | Joining | Exited
datatype gps_timer = T_none | T_top | T_check "int option" | T_done

record 'd gps_sys =
  sy_state :: "'d GpsState"
  sy_started :: bool
  sy_thread :: gps_thread
  sy_timer :: gps_timer

text \<open>The start of \<open>gps_state_thread\<close>.\<close>

definition gps_thread_init :: "'d \<Rightarrow> 'd GpsState \<Rightarrow> 'd gps_sys" where
  "gps_thread_init zero g =
     \<lparr>sy_state = g\<lparr>gs_reader := nmea_reader_init zero\<rparr>, sy_started = False, sy_thread = Running, sy_timer = T_none\<rparr>"

text \<open>A command. \<open>ok\<close> tells whether \<open>create_thread_cb\<close> gives a thread.\<close>

definition gps_control :: "bool \<Rightarrow> u8 \<Rightarrow> 'd gps_sys \<Rightarrow> 'd gps_sys" where
  "gps_control ok cmd s =
     (if cmd = CMD_QUIT then s\<lparr>sy_thread := Exited\<rparr>
      else if cmd = CMD_START then
        (if \<not> sy_started s then
           let s = s\<lparr>sy_started := True, sy_state := (GPS_STATUS_CB GPS_STATUS_SESSION_BEGIN (sy_state s))\<lparr>gs_init := STATE_START\<rparr>\<rparr>
           in if ok then s\<lparr>sy_timer := T_top\<rparr>
              else s\<lparr>sy_started := False, sy_state := (sy_state s)\<lparr>gs_init := STATE_INIT\<rparr>, sy_thread := Exited\<rparr>
         else s)
      else if cmd = CMD_STOP then
        (if sy_started s then s\<lparr>sy_started := False, sy_state := (sy_state s)\<lparr>gs_init := STATE_INIT\<rparr>, sy_thread := Joining\<rparr>
         else s)
      else s)"

text \<open>The rest of a stop, behind \<open>pthread_join\<close>.\<close>

definition gps_joined :: "'d gps_sys \<Rightarrow> 'd gps_sys" where
  "gps_joined s = s\<lparr>sy_state := GPS_STATUS_CB GPS_STATUS_SESSION_END (sy_state s), sy_thread := Running, sy_timer := T_none\<rparr>"

section \<open>The timer\<close>

text \<open>The first locked part of the loop; the result is the time to sleep, if any.\<close>

definition gps_timer_report :: "'d GpsState \<Rightarrow> int option \<times> 'd GpsState" where
  "gps_timer_report g =
     (let fix_flags = loc_flags (nr_fix (gs_reader g));
          g = (if fix_flags AND GPS_LOCATION_HAS_LAT_LONG \<noteq> 0 then
                let g = (if has_location_cb g
                      then g\<lparr>gs_calls := gs_calls g @ [Location_cb (nr_fix (gs_reader g))],
                        gs_reader := (gs_reader g)\<lparr>nr_fix := (nr_fix (gs_reader g))\<lparr>loc_flags := 0\<rparr>\<rparr>, first_fix := True\<rparr>
                      else g)
                in if fix_freq g = 0 then g\<lparr>fix_freq := -1\<rparr> else g
              else g);
          g = (if sv_status_changed (gs_reader g) \<and> has_sv_status_cb g
               then g\<lparr>gs_calls := gs_calls g @ [Sv_status_cb (sv_status (gs_reader g))],
                 gs_reader := (gs_reader g)\<lparr>sv_status_changed := False\<rparr>\<rparr>
               else g)
      in (if fix_freq g \<noteq> -1 \<and> gs_init g = STATE_START then Some (fix_freq g) else None, g))"

definition gps_timer_continue :: "'d GpsState \<Rightarrow> bool" where
  "gps_timer_continue g = (gs_init g = STATE_START)"

section \<open>Steps\<close>

definition gps_set_fix_frequency :: "int \<Rightarrow> 'd GpsState \<Rightarrow> 'd GpsState" where
  "gps_set_fix_frequency freq g =
     (if gs_init g = STATE_QUIT then g else g\<lparr>fix_freq := (if freq \<le> 0 then 1 else freq)\<rparr>)"

text \<open>The interval is unsigned: the check for a negative one never holds.\<close>

definition gps_set_position_mode :: "u32 \<Rightarrow> 'd GpsState \<Rightarrow> int \<times> 'd GpsState" where
  "gps_set_position_mode min_interval g =
     (if gs_init g = STATE_QUIT then (-1, g)
      else
        let g = g\<lparr>fix_freq := uint (min_interval div 1000)\<rparr>
        in (0, if fix_freq g = 0 then g\<lparr>fix_freq := 1\<rparr> else g))"

text \<open>
  The events of the poll are handled one at a time; an error or a hang-up ends the thread. The steps start from a
  driver that is set up: initialisation and cleanup are not among them.
\<close>

inductive gps_step :: "'d nmea_env \<Rightarrow> 'd gps_sys \<Rightarrow> 'd gps_sys \<Rightarrow> bool" for env where
  control: "sy_thread s = Running \<Longrightarrow> gps_step env s (gps_control ok cmd s)"
| data: "sy_thread s = Running \<Longrightarrow> nmea_reader_feed env bs (sy_state s) = Some g \<Longrightarrow> gps_step env s (s\<lparr>sy_state := g\<rparr>)"
| hangup: "sy_thread s = Running \<Longrightarrow> gps_step env s (s\<lparr>sy_thread := Exited\<rparr>)"
| joined: "sy_thread s = Joining \<Longrightarrow> sy_timer s = T_done \<Longrightarrow> gps_step env s (gps_joined s)"
| timer_report: "sy_timer s = T_top \<Longrightarrow> gps_timer_report (sy_state s) = (secs, g) \<Longrightarrow>
    gps_step env s (s\<lparr>sy_state := g, sy_timer := T_check secs\<rparr>)"
| timer_check: "sy_timer s = T_check secs \<Longrightarrow>
    gps_step env s (s\<lparr>sy_timer := (if gps_timer_continue (sy_state s) then T_top else T_done)\<rparr>)"

text \<open>The service may set the frequency at any time.\<close>

inductive gps_app :: "'d gps_sys \<Rightarrow> 'd gps_sys \<Rightarrow> bool" where
  frequency: "gps_app s (s\<lparr>sy_state := gps_set_fix_frequency freq (sy_state s)\<rparr>)"
| mode: "gps_app s (s\<lparr>sy_state := snd (gps_set_position_mode interval (sy_state s))\<rparr>)"

inductive gps_reachable :: "'d nmea_env \<Rightarrow> 'd gps_sys \<Rightarrow> 'd gps_sys \<Rightarrow> bool" for env s where
  here: "gps_reachable env s s"
| more: "gps_reachable env s t \<Longrightarrow> gps_step env t u \<or> gps_app t u \<Longrightarrow> gps_reachable env s u"

inductive_cases gps_stepE: "gps_step env s s'"
inductive_cases gps_appE: "gps_app s s'"

section \<open>Sessions\<close>

text \<open>The status callbacks.\<close>

fun statuses :: "'d gps_call list \<Rightarrow> int list" where
  "statuses [] = []"
| "statuses (Status_cb v # cs) = v # statuses cs"
| "statuses (c # cs) = statuses cs"

lemma statuses_append [simp]: "statuses (cs @ ds) = statuses cs @ statuses ds"
  by (induction cs rule: statuses.induct) auto

text \<open>What the reader and the timer leave of the rest of the state.\<close>

definition session_same :: "'d GpsState \<Rightarrow> 'd GpsState \<Rightarrow> bool" where
  "session_same g g' = (gs_init g' = gs_init g \<and> has_status_cb g' = has_status_cb g \<and>
     statuses (gs_calls g') = statuses (gs_calls g) \<and> (reader_ok (gs_reader g) \<longrightarrow> reader_ok (gs_reader g')))"

lemma session_same_trans: "session_same g h \<Longrightarrow> session_same h i \<Longrightarrow> session_same g i"
  by (simp add: session_same_def)

lemma parse_session:
  assumes "nmea_reader_parse env g = Some g'"
  shows "session_same g g'"
proof -
  have "gs_init g' = gs_init g \<and> has_status_cb g' = has_status_cb g \<and> statuses (gs_calls g') = statuses (gs_calls g)"
    using assms by (auto simp: nmea_reader_parse_def Let_def bind_eq_Some_conv split: if_splits)
  with nmea_reader_parse_effect [OF assms] show ?thesis by (auto simp: session_same_def parse_effect_def reader_ok_def)
qed

lemma addc_session:
  assumes "nmea_reader_addc env g c = Some g'"
  shows "session_same g g'"
proof (cases "nr_overflow (gs_reader g) \<or> nr_pos (gs_reader g) \<ge> NMEA_MAX_SIZE")
  case True
  then show ?thesis using assms by (auto simp: nmea_reader_addc_def Let_def session_same_def reader_ok_def split: if_splits)
next
  case False
  then have len: "nr_pos (gs_reader g) < length (nr_in (gs_reader g))"
    using assms by (auto simp: nmea_reader_addc_def Let_def wr_def split: if_splits)
  have run: "nmea_reader_addc env g c =
      (if c = 0x0A then map_option (\<lambda>g. g\<lparr>gs_reader := (gs_reader g)\<lparr>nr_pos := 0\<rparr>\<rparr>) (nmea_reader_parse env (stored [c] g))
       else Some (stored [c] g))"
    using False len by (simp add: nmea_reader_addc_def Let_def wr_def stored_single map_conv_bind_option comp_def)
  have stored: "session_same g (stored [c] g)"
    using False reader_ok_stored [of g "[c]"] by (simp add: session_same_def stored_def)
  show ?thesis
  proof (cases "c = 0x0A")
    case True
    with assms run obtain h where h: "nmea_reader_parse env (stored [c] g) = Some h" "g' = h\<lparr>gs_reader := (gs_reader h)\<lparr>nr_pos := 0\<rparr>\<rparr>"
      by (cases "nmea_reader_parse env (stored [c] g)") auto
    have "session_same h g'" using h(2) by (simp add: session_same_def reader_ok_def)
    then show ?thesis using stored parse_session [OF h(1)] by (blast intro: session_same_trans)
  qed (use assms run stored in simp)
qed

lemma feed_session: "nmea_reader_feed env bs g = Some g' \<Longrightarrow> session_same g g'"
proof (induction bs arbitrary: g)
  case (Cons b bs)
  from Cons.prems obtain h where "nmea_reader_addc env g b = Some h" "nmea_reader_feed env bs h = Some g'"
    by (auto simp: bind_eq_Some_conv)
  with Cons.IH addc_session show ?case by (blast intro: session_same_trans)
qed (simp add: session_same_def)

lemma timer_session: "gps_timer_report g = (secs, g') \<Longrightarrow> session_same g g'"
  by (auto simp: gps_timer_report_def Let_def session_same_def reader_ok_def split: if_splits)

lemma frequency_session: "session_same g (gps_set_fix_frequency freq g)" "session_same g (snd (gps_set_position_mode interval g))"
  by (auto simp: gps_set_fix_frequency_def gps_set_position_mode_def Let_def session_same_def)

lemmas session_lemmas = feed_session timer_session frequency_session

text \<open>The invariant of the two threads, with a session open from the first callback to the second.\<close>

definition session_open :: "'d gps_sys \<Rightarrow> bool" where
  "session_open s = (sy_timer s \<noteq> T_none)"

definition sys_ok :: "'d gps_sys \<Rightarrow> bool" where
  "sys_ok s =
     (reader_ok (gs_reader (sy_state s)) \<and> gs_init (sy_state s) \<noteq> STATE_QUIT \<and>
      (gs_init (sy_state s) = STATE_START \<longleftrightarrow> sy_started s) \<and>
      (session_open s \<longleftrightarrow> sy_started s \<or> sy_thread s = Joining) \<and>
      (sy_thread s = Joining \<longrightarrow> \<not> sy_started s) \<and>
      (sy_timer s = T_done \<longrightarrow> \<not> sy_started s))"

lemma sys_ok_state:
  "sys_ok s \<Longrightarrow> session_same (sy_state s) g \<Longrightarrow> sys_ok (s\<lparr>sy_state := g\<rparr>)"
  by (auto simp: sys_ok_def session_same_def session_open_def)

lemma gps_control_ok: "sys_ok s \<Longrightarrow> sy_thread s = Running \<Longrightarrow> sys_ok (gps_control ok cmd s)"
  by (auto simp: sys_ok_def gps_control_def session_open_def GPS_STATUS_CB_def Let_def)

lemma gps_step_ok:
  assumes "gps_step env s t" "sys_ok s"
  shows "sys_ok t"
  using assms(1)
proof cases
  case (control ok cmd)
  then show ?thesis using assms(2) by (simp add: gps_control_ok)
next
  case (data bs g)
  then show ?thesis using assms(2) by (simp add: sys_ok_state feed_session)
next
  case (timer_report secs g)
  then have "sys_ok (s\<lparr>sy_state := g\<rparr>)" using assms(2) by (simp add: sys_ok_state timer_session)
  with timer_report show ?thesis by (auto simp: sys_ok_def session_open_def)
qed (use assms(2) in \<open>auto simp: sys_ok_def session_open_def gps_joined_def GPS_STATUS_CB_def gps_timer_continue_def\<close>)

lemma gps_app_ok: "gps_app s t \<Longrightarrow> sys_ok s \<Longrightarrow> sys_ok t"
  by (auto elim!: gps_appE intro!: sys_ok_state frequency_session)

definition session_log :: "'d gps_sys \<Rightarrow> nat \<Rightarrow> bool \<Rightarrow> bool" where
  "session_log s n b = (has_status_cb (sy_state s) \<and>
     statuses (gs_calls (sy_state s)) =
       concat (replicate n [GPS_STATUS_SESSION_BEGIN, GPS_STATUS_SESSION_END]) @ (if b then [GPS_STATUS_SESSION_BEGIN] else []) \<and>
     (sy_thread s \<noteq> Exited \<longrightarrow> b = session_open s))"

lemma session_log_same:
  "session_log s n b \<Longrightarrow> session_same (sy_state s) (sy_state t) \<Longrightarrow> sy_thread t = sy_thread s \<Longrightarrow> session_open t = session_open s \<Longrightarrow> session_log t n b"
  by (auto simp: session_log_def session_same_def)

lemma concat_replicate_Suc: "concat (replicate (Suc n) xs) = concat (replicate n xs) @ xs"
  by (induction n) simp_all

lemma gps_control_log:
  assumes "session_log s n b" "sys_ok s" "sy_thread s = Running"
  shows "\<exists>b. session_log (gps_control ok cmd s) n b"
proof (cases "cmd = CMD_START \<and> \<not> sy_started s")
  case True
  then have "\<not> b" using assms by (auto simp: session_log_def sys_ok_def)
  with True assms have "session_log (gps_control ok cmd s) n True"
    by (auto simp: session_log_def gps_control_def gps_commands session_open_def GPS_STATUS_CB_def Let_def)
  then show ?thesis ..
next
  case False
  then have "session_log (gps_control ok cmd s) n b"
    using assms by (auto simp: session_log_def sys_ok_def gps_control_def session_open_def)
  then show ?thesis ..
qed

lemma gps_step_log:
  assumes "gps_step env s t" "sys_ok s" "session_log s n b"
  shows "\<exists>n b. session_log t n b"
  using assms(1)
proof cases
  case (control ok cmd)
  then show ?thesis using gps_control_log [OF assms(3,2)] by blast
next
  case (data bs g)
  then have "session_log t n b"
    using session_log_same [OF assms(3), of t] feed_session [OF data(3)] by (simp add: session_open_def)
  then show ?thesis by blast
next
  case joined
  then have b using assms by (auto simp: session_log_def sys_ok_def session_open_def)
  with joined assms(3) have "session_log t (Suc n) False"
    unfolding session_log_def concat_replicate_Suc by (simp add: gps_joined_def GPS_STATUS_CB_def session_open_def)
  then show ?thesis by blast
next
  case (timer_report secs g)
  then have "session_log t n b"
    using session_log_same [OF assms(3), of t] timer_session [OF timer_report(3)] by (simp add: session_open_def)
  then show ?thesis by blast
qed (use assms(3) in \<open>auto simp: session_log_def session_open_def\<close>)

lemma gps_app_same: "gps_app s t \<Longrightarrow> session_same (sy_state s) (sy_state t) \<and> sy_thread t = sy_thread s \<and> sy_timer t = sy_timer s"
  by (auto elim!: gps_appE simp: frequency_session)

lemma gps_app_log: "gps_app s t \<Longrightarrow> session_log s n b \<Longrightarrow> session_log t n b"
  using gps_app_same [of s t] session_log_same [of s n b t] by (simp add: session_open_def)

text \<open>A stop under way: the steps the timer has left.\<close>

fun timer_rank :: "gps_timer \<Rightarrow> nat" where
  "timer_rank T_top = 2"
| "timer_rank (T_check secs) = 1"
| "timer_rank T_done = 0"
| "timer_rank T_none = 0"

definition stopping :: "int list \<Rightarrow> nat \<Rightarrow> 'd gps_sys \<Rightarrow> bool" where
  "stopping vs n s = (sys_ok s \<and> sy_thread s = Joining \<and> has_status_cb (sy_state s) \<and>
     statuses (gs_calls (sy_state s)) = vs \<and> timer_rank (sy_timer s) = n)"

definition stopped :: "int list \<Rightarrow> 'd gps_sys \<Rightarrow> bool" where
  "stopped vs s = (sys_ok s \<and> sy_thread s = Running \<and> sy_timer s = T_none \<and> gs_init (sy_state s) = STATE_INIT \<and>
     statuses (gs_calls (sy_state s)) = vs @ [GPS_STATUS_SESSION_END])"

lemma stopping_app: "gps_app s t \<Longrightarrow> stopping vs n s \<Longrightarrow> stopping vs n t"
  using gps_app_same [of s t] gps_app_ok [of s t] by (auto simp: stopping_def session_same_def)

lemma stopping_step:
  assumes "gps_step env s t" "stopping vs n s"
  shows "stopped vs t \<or> (\<exists>m<n. stopping vs m t)"
proof -
  have t: "sys_ok t" using assms gps_step_ok by (auto simp: stopping_def)
  have "\<not> gps_timer_continue (sy_state s)" using assms(2) by (auto simp: stopping_def sys_ok_def gps_timer_continue_def)
  with assms(1) show ?thesis
  proof cases
    case joined
    then show ?thesis using assms(2) t by (cases "gs_init (sy_state s)")
      (auto simp: stopping_def stopped_def gps_joined_def GPS_STATUS_CB_def sys_ok_def)
  next
    case (timer_report secs g)
    then show ?thesis using assms(2) t timer_session [OF timer_report(3)] by (auto simp: stopping_def session_same_def)
  qed (use assms(2) t in \<open>auto simp: stopping_def\<close>)
qed

lemma stopping_enabled: "stopping vs n s \<Longrightarrow> \<exists>t. gps_step env s t"
proof (cases "sy_timer s")
  case T_top
  then show ?thesis by (metis timer_report surj_pair)
qed (auto simp: stopping_def sys_ok_def session_open_def intro: gps_step.intros)

lemma stopping_ends:
  assumes "\<And>i. gps_step env (f i) (f (Suc i)) \<or> gps_app (f i) (f (Suc i))"
    and "\<And>i. \<exists>j\<ge>i. gps_step env (f j) (f (Suc j))" "stopping vs n (f i)"
  shows "\<exists>j\<ge>i. stopped vs (f j)"
  using assms(3)
proof (induction n arbitrary: i rule: less_induct)
  case (less n)
  obtain k where k: "k \<ge> i" "gps_step env (f k) (f (Suc k))" "\<And>m. i \<le> m \<Longrightarrow> m < k \<Longrightarrow> \<not> gps_step env (f m) (f (Suc m))"
    using assms(2) [of i] LeastI_ex [of "\<lambda>k. i \<le> k \<and> gps_step env (f k) (f (Suc k))"]
      not_less_Least [of _ "\<lambda>k. i \<le> k \<and> gps_step env (f k) (f (Suc k))"] by blast
  have "m \<le> k \<longrightarrow> stopping vs n (f m)" if "i \<le> m" for m
    using that
  proof (induction m rule: dec_induct)
    case (step m)
    then show ?case using k(3) [of m] assms(1) [of m] stopping_app by auto
  qed (use less.prems in simp)
  then have "stopping vs n (f k)" using k(1) by blast
  from stopping_step [OF k(2) this] less.IH [of _ "Suc k"] k(1) show ?case by (meson le_SucI le_trans order_refl)
qed

section \<open>Properties\<close>

text \<open>
  C8. However the commands, the sentences, the two threads and the calls that set the frequency
  interleave: the reader stays in shape, the driver is in its started state exactly while a session
  is on, and the status callbacks are alternately of a beginning and an end, the last one a
  beginning exactly while the timer thread has not been joined.
\<close>

theorem gps_sessions_alternate:
  assumes "gps_reachable env (gps_thread_init zero g) s" "gs_init g = STATE_INIT" "has_status_cb g" "statuses (gs_calls g) = []"
  shows "sys_ok s \<and> (\<exists>n b. session_log s n b)"
  using assms(1)
proof induction
  case here
  have "session_log (gps_thread_init zero g) 0 False"
    using assms by (simp add: session_log_def gps_thread_init_def session_open_def)
  moreover have "sys_ok (gps_thread_init zero g)"
    using assms(2) by (simp add: sys_ok_def gps_thread_init_def session_open_def nmea_reader_init_def reader_ok_def sv_ok_def)
  ultimately show ?case by blast
next
  case (more t u)
  then obtain n b where log: "session_log t n b" and ok: "sys_ok t" by blast
  have "session_log u n b" if "gps_app t u" using gps_app_log [OF that log] .
  with more.hyps(2) gps_step_log [OF _ ok log] gps_step_ok [OF _ ok] gps_app_ok [OF _ ok] show ?case by blast
qed

theorem gps_sessions_alternate_witness:
  "sys_ok (gps_control True CMD_START (gps_thread_init () idle_gps)) \<and>
   (\<exists>n b. session_log (gps_control True CMD_START (gps_thread_init () idle_gps)) n b)"
proof -
  have "gps_step unit_env (gps_thread_init () idle_gps) (gps_control True CMD_START (gps_thread_init () idle_gps))"
    by (rule control) (simp add: gps_thread_init_def)
  then have "gps_reachable unit_env (gps_thread_init () idle_gps) (gps_control True CMD_START (gps_thread_init () idle_gps))"
    by (blast intro: here more)
  from gps_sessions_alternate [OF this] show ?thesis by (simp add: idle_gps_def)
qed

text \<open>
  C9. A stop ends: whenever the thread waits for the timer, some thread can go on, and on every fair
  schedule the timer leaves its loop, the thread is back in its own, and the end of the session has
  been reported once, however often the service sets the frequency meanwhile.
\<close>

theorem gps_stop_ends:
  assumes "sys_ok (f 0)" "sy_thread (f 0) = Joining" "has_status_cb (sy_state (f 0))"
    and "\<And>i. gps_step env (f i) (f (Suc i)) \<or> gps_app (f i) (f (Suc i))"
    and "\<And>i. \<exists>j\<ge>i. gps_step env (f j) (f (Suc j))"
  shows "(\<exists>t. gps_step env (f 0) t) \<and> (\<exists>j. stopped (statuses (gs_calls (sy_state (f 0)))) (f j))"
proof -
  have "stopping (statuses (gs_calls (sy_state (f 0)))) (timer_rank (sy_timer (f 0))) (f 0)"
    using assms(1-3) by (simp add: stopping_def)
  from stopping_enabled [OF this] stopping_ends [OF assms(4,5) this] show ?thesis by blast
qed

text \<open>A schedule on which only the threads run.\<close>

definition sys_next :: "'d gps_sys \<Rightarrow> 'd gps_sys" where
  "sys_next s = (case sy_timer s of
       T_top \<Rightarrow> s\<lparr>sy_state := snd (gps_timer_report (sy_state s)), sy_timer := T_check (fst (gps_timer_report (sy_state s)))\<rparr>
     | T_check secs \<Rightarrow> s\<lparr>sy_timer := (if gps_timer_continue (sy_state s) then T_top else T_done)\<rparr>
     | T_done \<Rightarrow> gps_joined s
     | T_none \<Rightarrow> gps_control True 255 s)"

definition may_run :: "'d gps_sys \<Rightarrow> bool" where
  "may_run s = (sy_thread s = Joining \<or> sy_thread s = Running \<and> sy_timer s \<noteq> T_done)"

lemma sys_next_step:
  assumes "may_run s" "sys_ok s"
  shows "gps_step env s (sys_next s) \<and> may_run (sys_next s) \<and> sys_ok (sys_next s)"
proof -
  have "gps_step env s (sys_next s)"
  proof (cases "sy_timer s")
    case (T_check secs)
    from timer_check [OF this] T_check show ?thesis by (simp add: sys_next_def)
  qed (use assms in \<open>auto simp: sys_next_def may_run_def sys_ok_def session_open_def intro: gps_step.intros\<close>)
  moreover have "may_run (sys_next s)"
    using assms by (cases "sy_timer s")
      (auto simp: sys_next_def may_run_def sys_ok_def session_open_def gps_joined_def gps_timer_continue_def gps_control_def gps_commands)
  ultimately show ?thesis using gps_step_ok assms(2) by blast
qed

theorem gps_stop_ends_witness:
  "\<exists>j. stopped [GPS_STATUS_SESSION_BEGIN] ((sys_next ^^ j) (gps_control True CMD_STOP (gps_control True CMD_START (gps_thread_init () idle_gps))))"
proof -
  let ?s = "gps_control True CMD_STOP (gps_control True CMD_START (gps_thread_init () idle_gps))"
  let ?f = "\<lambda>i. (sys_next ^^ i) ?s"
  have s: "sys_ok ?s" "sy_thread ?s = Joining" "has_status_cb (sy_state ?s)"
    "statuses (gs_calls (sy_state ?s)) = [GPS_STATUS_SESSION_BEGIN]"
    by (simp_all add: sys_ok_def gps_control_def gps_thread_init_def gps_commands GPS_STATUS_CB_def session_open_def
        idle_gps_def nmea_reader_init_def reader_ok_def sv_ok_def)
  have "may_run (?f i) \<and> sys_ok (?f i)" for i
  proof (induction i)
    case 0
    then show ?case using s by (simp add: may_run_def)
  next
    case (Suc i)
    then show ?case using sys_next_step [of "?f i"] by simp
  qed
  then have "gps_step unit_env (?f i) (?f (Suc i))" for i using sys_next_step [of "?f i"] by simp
  from gps_stop_ends [of ?f, OF _ _ _ disjI1 [OF this]] s this show ?thesis by auto
qed

end
