(* ===== verification/Gps_Interface.thy ===== *)
theory Gps_Interface
  imports Gps_State
begin

text \<open>
  The functions of the GPS driver in \<^verbatim>\<open>src/hardware/mx5x/libgps/tractor_gps.c\<close> that the location
  service calls: starting and ending the driver, and the commands to its thread. What the kernel
  answers is a parameter, the calls made are recorded. A loop that goes on after \<open>EINTR\<close> is given
  the answers to its attempts; \<open>None\<close> means that it has not ended with them.
\<close>

section \<open>Calls to the kernel\<close>

datatype sysret = Ret int | Err int

abbreviation (input) EINTR :: int where "EINTR \<equiv> 4"

fun retry :: "sysret list \<Rightarrow> int option" where
  "retry [] = None"
| "retry (Ret v # rs) = Some v"
| "retry (Err e # rs) = (if e = EINTR then retry rs else Some (-1))"

datatype gps_io =
    Io_sem_init | Io_sem_destroy
  | Io_open | Io_termios int | Io_socketpair | Io_thread
  | Io_write int bytes | Io_join | Io_close int

text \<open>
  The answers while the driver starts: whether the semaphore is made, the attempts to open the port,
  whether it is a terminal, the socket pair, whether there is a thread, and the attempts to send
  the quit command if it fails.
\<close>

record gps_boot =
  gb_sem :: bool
  gb_open :: "sysret list"
  gb_tty :: bool
  gb_pair :: "(int \<times> int) option"
  gb_thread :: bool
  gb_quit :: "sysret list"

record 'd gps_hal =
  hal_state :: "'d GpsState"
  hal_fd :: int
  hal_control :: "int \<times> int"
  hal_io :: "gps_io list"

definition io :: "gps_io list \<Rightarrow> 'd gps_hal \<Rightarrow> 'd gps_hal" where
  "io cs h = h\<lparr>hal_io := hal_io h @ cs\<rparr>"

section \<open>Starting and ending\<close>

text \<open>The state after \<open>memset\<close>; the calls made to the callbacks are not part of it.\<close>

definition zero_state :: "'d \<Rightarrow> 'd GpsState \<Rightarrow> 'd GpsState" where
  "zero_state zero g =
     g\<lparr>gs_init := STATE_QUIT, has_nmea_cb := False, has_location_cb := False, has_sv_status_cb := False, has_status_cb := False,
       fix_freq := 0, first_fix := False, gs_reader := (nmea_reader_init zero)\<lparr>utc_year := 0, utc_mon := 0, utc_day := 0\<rparr>\<rparr>"

definition gps_state_done :: "'d \<Rightarrow> sysret list \<Rightarrow> 'd gps_hal \<Rightarrow> 'd gps_hal option" where
  "gps_state_done zero ws h =
     do {
       _ \<leftarrow> retry ws;
       let h = io [Io_write (fst (hal_control h)) [CMD_QUIT], Io_join, Io_close (fst (hal_control h)), Io_close (snd (hal_control h)),
         Io_close (hal_fd h), Io_sem_destroy] h;
       Some (h\<lparr>hal_state := zero_state zero (hal_state h), hal_fd := 0, hal_control := (0, 0)\<rparr>)
     }"

definition gps_state_init :: "'d \<Rightarrow> gps_boot \<Rightarrow> 'd gps_hal \<Rightarrow> 'd gps_hal option" where
  "gps_state_init zero boot h =
     (let h = io [Io_sem_init] (h\<lparr>hal_state := (hal_state h)\<lparr>gs_init := STATE_INIT, fix_freq := -1, first_fix := False\<rparr>,
                hal_control := (-1, -1), hal_fd := -1\<rparr>) in
      if \<not> gb_sem boot then Some h
      else do {
        fd \<leftarrow> retry (gb_open boot);
        let h = io [Io_open] (h\<lparr>hal_fd := fd\<rparr>);
        if fd < 0 then Some h
        else
          let h = (if gb_tty boot then io [Io_termios fd] h else h); h = io [Io_socketpair] h in
          case gb_pair boot of
            None \<Rightarrow> gps_state_done zero (gb_quit boot) h
          | Some pair \<Rightarrow>
              let h = io [Io_thread] (h\<lparr>hal_control := pair\<rparr>) in
              if gb_thread boot then Some h else gps_state_done zero (gb_quit boot) h
      })"

text \<open>The callbacks are copied first; the driver is started unless it runs.\<close>

definition hal_init :: "'d \<Rightarrow> gps_boot \<Rightarrow> bool \<times> bool \<times> bool \<times> bool \<Rightarrow> 'd gps_hal \<Rightarrow> (int \<times> 'd gps_hal) option" where
  "hal_init zero boot cbs h =
     (case cbs of (nmea, loc, sv, stat) \<Rightarrow>
      do {
        let h = h\<lparr>hal_state := (hal_state h)\<lparr>has_nmea_cb := nmea, has_location_cb := loc, has_sv_status_cb := sv, has_status_cb := stat\<rparr>\<rparr>;
        h \<leftarrow> (if gs_init (hal_state h) = STATE_QUIT then gps_state_init zero boot h else Some h);
        Some (if hal_fd h < 0 then -1 else 0, h)
      })"

definition gps_cleanup :: "'d \<Rightarrow> sysret list \<Rightarrow> 'd gps_hal \<Rightarrow> 'd gps_hal option" where
  "gps_cleanup zero ws h = (if gs_init (hal_state h) \<noteq> STATE_QUIT then gps_state_done zero ws h else Some h)"

section \<open>Commands\<close>

definition gps_state_start :: "sysret list \<Rightarrow> 'd gps_hal \<Rightarrow> 'd gps_hal option" where
  "gps_state_start ws h = do { _ \<leftarrow> retry ws; Some (io [Io_write (fst (hal_control h)) [CMD_START]] h) }"

definition gps_state_stop :: "sysret list \<Rightarrow> 'd gps_hal \<Rightarrow> 'd gps_hal option" where
  "gps_state_stop ws h = do { _ \<leftarrow> retry ws; Some (io [Io_write (fst (hal_control h)) [CMD_STOP]] h) }"

text \<open>\<open>hooked\<close>: a hook is configured and its command succeeds. Otherwise the receiver is told by a sentence.\<close>

definition run_hook :: "bytes \<Rightarrow> (bytes \<Rightarrow> int) \<Rightarrow> bytes \<Rightarrow> bool" where
  "run_hook hookspath system name = (if hookspath = [] then False else system (hookspath @ 0x2F # name) = 0)"

definition hook_start :: bytes where "hook_start = [0x73, 0x74, 0x61, 0x72, 0x74]"
definition hook_stop :: bytes where "hook_stop = [0x73, 0x74, 0x6F, 0x70]"

definition punv_wakeup :: bytes where
  "punv_wakeup = [0x24, 0x50, 0x55, 0x4E, 0x56, 0x2C, 0x57, 0x41, 0x4B, 0x45, 0x55, 0x50, 0x2A, 0x32, 0x43, 0x0D, 0x0A]"

definition punv_sleep :: bytes where
  "punv_sleep = [0x24, 0x50, 0x55, 0x4E, 0x56, 0x2C, 0x53, 0x4C, 0x45, 0x45, 0x50, 0x2A, 0x37, 0x45, 0x0D, 0x0A]"

definition gps_start :: "bytes \<Rightarrow> (bytes \<Rightarrow> int) \<Rightarrow> sysret list \<Rightarrow> 'd gps_hal \<Rightarrow> (int \<times> 'd gps_hal) option" where
  "gps_start hookspath system ws h =
     (if gs_init (hal_state h) = STATE_QUIT then Some (-1, h)
      else do {
        let h = (if run_hook hookspath system hook_start then h else io [Io_write (hal_fd h) punv_wakeup] h);
        h \<leftarrow> gps_state_start ws h;
        Some (0, h)
      })"

definition gps_stop :: "bytes \<Rightarrow> (bytes \<Rightarrow> int) \<Rightarrow> sysret list \<Rightarrow> 'd gps_hal \<Rightarrow> (int \<times> 'd gps_hal) option" where
  "gps_stop hookspath system ws h =
     (if gs_init (hal_state h) = STATE_QUIT then Some (-1, h)
      else do {
        let h = (if run_hook hookspath system hook_stop then h else io [Io_write (hal_fd h) punv_sleep] h);
        h \<leftarrow> gps_state_stop ws h;
        Some (0, h)
      })"

section \<open>Properties\<close>

text \<open>What a started driver needs.\<close>

definition boot_ok :: "gps_boot \<Rightarrow> bool" where
  "boot_ok boot = (gb_pair boot \<noteq> None \<and> gb_thread boot)"

text \<open>
  C40. \<open>gps_init\<close> on a driver that does not run, when the semaphore is made and the port is open: it
  always reports success. If the socket pair and the thread are there the driver is initialised, with
  the port open. If not, everything is closed and the state is cleared, and because the
  descriptor is then 0 and not -1 the failure is reported as a success; \<open>gps_start\<close> then fails.
\<close>

theorem gps_init_hides_failure:
  assumes "gs_init (hal_state h) = STATE_QUIT" "gb_sem boot" "retry (gb_open boot) = Some fd" "0 \<le> fd" "retry (gb_quit boot) \<noteq> None"
  shows "\<exists>h'. hal_init zero boot cbs h = Some (0, h') \<and>
    (if boot_ok boot then gs_init (hal_state h') = STATE_INIT \<and> hal_fd h' = fd \<and> gb_pair boot = Some (hal_control h')
     else gs_init (hal_state h') = STATE_QUIT \<and> hal_fd h' = 0 \<and> Io_close fd \<in> set (hal_io h') \<and>
       gps_start hookspath system ws h' = Some (-1, h'))"
  using assms by (cases cbs; cases "gb_pair boot")
    (auto simp: hal_init_def gps_state_init_def gps_state_done_def boot_ok_def io_def zero_state_def gps_start_def Let_def)

definition no_pair :: gps_boot where
  "no_pair = \<lparr>gb_sem = True, gb_open = [Err 4, Ret 7], gb_tty = True, gb_pair = None, gb_thread = True, gb_quit = [Err 9]\<rparr>"

definition no_driver :: "unit gps_hal" where
  "no_driver = \<lparr>hal_state = zero_state () idle_gps, hal_fd = 0, hal_control = (0, 0), hal_io = []\<rparr>"

theorem gps_init_hides_failure_witness:
  "\<exists>h'. hal_init () no_pair (True, True, True, True) no_driver = Some (0, h') \<and> gs_init (hal_state h') = STATE_QUIT \<and>
     gps_start [] (\<lambda>_. 0) [Ret 1] h' = Some (-1, h')"
  using gps_init_hides_failure [where h = no_driver and boot = no_pair and fd = 7 and zero = "()" and cbs = "(True, True, True, True)"
      and hookspath = "[]" and system = "\<lambda>_. 0" and ws = "[Ret 1]"]
  by (auto simp: no_driver_def no_pair_def zero_state_def boot_ok_def)

end
