(* ===== verification/Linked_List.thy ===== *)
theory Linked_List
  imports Prelude
begin

text \<open>
  The doubly linked list template of \<^verbatim>\<open>src/hardware/mx5x/libgralloc/allocator.h\<close> on an explicit
  store. A node is a non-zero address, with its two links and its contents. \<open>ll_rep l xs\<close> says that
  the list links the nodes \<open>xs\<close> in this order, in both directions; every method is shown to be the
  operation on lists of its name.
\<close>

section \<open>The template\<close>

record 'v linked_list =
  mFirst :: nat
  mLast :: nat
  ll_prev :: "nat \<Rightarrow> nat"
  ll_next :: "nat \<Rightarrow> nat"
  ll_val :: "nat \<Rightarrow> 'v"

definition set_prev :: "nat \<Rightarrow> nat \<Rightarrow> 'v linked_list \<Rightarrow> 'v linked_list" where
  "set_prev node p l = l\<lparr>ll_prev := (ll_prev l)(node := p)\<rparr>"

definition set_next :: "nat \<Rightarrow> nat \<Rightarrow> 'v linked_list \<Rightarrow> 'v linked_list" where
  "set_next node n l = l\<lparr>ll_next := (ll_next l)(node := n)\<rparr>"

definition set_val :: "nat \<Rightarrow> 'v \<Rightarrow> 'v linked_list \<Rightarrow> 'v linked_list" where
  "set_val node v l = l\<lparr>ll_val := (ll_val l)(node := v)\<rparr>"

definition isEmpty :: "'v linked_list \<Rightarrow> bool" where
  "isEmpty l = (mFirst l = 0)"

definition insertAfter :: "nat \<Rightarrow> nat \<Rightarrow> 'v linked_list \<Rightarrow> 'v linked_list" where
  "insertAfter node newNode l =
     (let l = set_prev newNode node l;
          l = set_next newNode (ll_next l node) l;
          l = (if ll_next l node = 0 then l\<lparr>mLast := newNode\<rparr> else set_prev (ll_next l node) newNode l)
      in set_next node newNode l)"

definition insertBefore :: "nat \<Rightarrow> nat \<Rightarrow> 'v linked_list \<Rightarrow> 'v linked_list" where
  "insertBefore node newNode l =
     (let l = set_prev newNode (ll_prev l node) l;
          l = set_next newNode node l;
          l = (if ll_prev l node = 0 then l\<lparr>mFirst := newNode\<rparr> else set_next (ll_prev l node) newNode l)
      in set_prev node newNode l)"

definition insertHead :: "nat \<Rightarrow> 'v linked_list \<Rightarrow> 'v linked_list" where
  "insertHead newNode l =
     (if mFirst l = 0 then set_next newNode 0 (set_prev newNode 0 (l\<lparr>mLast := newNode, mFirst := newNode\<rparr>))
      else
        let l = set_prev newNode 0 l;
            l = set_next newNode (mFirst l) l;
            l = set_prev (mFirst l) newNode l
        in l\<lparr>mFirst := newNode\<rparr>)"

definition insertTail :: "nat \<Rightarrow> 'v linked_list \<Rightarrow> 'v linked_list" where
  "insertTail newNode l =
     (if mLast l = 0 then insertHead newNode l
      else
        let l = set_prev newNode (mLast l) l;
            l = set_next newNode 0 l;
            l = set_next (mLast l) newNode l
        in l\<lparr>mLast := newNode\<rparr>)"

definition remove :: "nat \<Rightarrow> 'v linked_list \<Rightarrow> 'v linked_list" where
  "remove node l =
     (let l = (if ll_prev l node = 0 then l\<lparr>mFirst := ll_next l node\<rparr> else set_next (ll_prev l node) (ll_next l node) l)
      in if ll_next l node = 0 then l\<lparr>mLast := ll_prev l node\<rparr> else set_prev (ll_next l node) (ll_prev l node) l)"

section \<open>The nodes in order\<close>

definition hd0 :: "nat list \<Rightarrow> nat \<Rightarrow> nat" where
  "hd0 xs n = (if xs = [] then n else hd xs)"

definition last0 :: "nat list \<Rightarrow> nat \<Rightarrow> nat" where
  "last0 xs p = (if xs = [] then p else last xs)"

lemma hd0_simps [simp]: "hd0 [] n = n" "hd0 (x # xs) n = x" "hd0 (xs @ ys) n = hd0 xs (hd0 ys n)"
  by (auto simp: hd0_def)

lemma last0_simps [simp]: "last0 [] p = p" "last0 (x # xs) p = last0 xs x" "last0 (xs @ ys) p = last0 ys (last0 xs p)"
  by (auto simp: last0_def)

lemma hd0_in: "hd0 xs n \<in> insert n (set xs)"
  by (simp add: hd0_def)

lemma last0_in: "last0 xs p \<in> insert p (set xs)"
  by (simp add: last0_def)

text \<open>A segment: its nodes are linked with each other, the first back to \<open>p\<close>, the last on to \<open>n\<close>.\<close>

fun ll_seg :: "'v linked_list \<Rightarrow> nat \<Rightarrow> nat list \<Rightarrow> nat \<Rightarrow> bool" where
  "ll_seg l p [] n = True"
| "ll_seg l p (x # xs) n = (ll_prev l x = p \<and> ll_next l x = hd0 xs n \<and> ll_seg l x xs n)"

definition ll_rep :: "'v linked_list \<Rightarrow> nat list \<Rightarrow> bool" where
  "ll_rep l xs = (distinct xs \<and> 0 \<notin> set xs \<and> mFirst l = hd0 xs 0 \<and> mLast l = last0 xs 0 \<and> ll_seg l 0 xs 0)"

lemma ll_seg_append: "ll_seg l p (xs @ ys) n \<longleftrightarrow> ll_seg l p xs (hd0 ys n) \<and> ll_seg l (last0 xs p) ys n"
  by (induction xs arbitrary: p) auto

text \<open>A segment does not depend on other nodes, nor on the ends of the list and the contents.\<close>

lemma ll_seg_cong:
  "(\<And>x. x \<in> set xs \<Longrightarrow> ll_prev l' x = ll_prev l x \<and> ll_next l' x = ll_next l x) \<Longrightarrow> ll_seg l' p xs n = ll_seg l p xs n"
  by (induction xs arbitrary: p) auto

lemma ll_fields [simp]:
  "ll_prev (set_prev y v l) x = (if x = y then v else ll_prev l x)" "ll_next (set_prev y v l) = ll_next l"
  "ll_prev (set_next y v l) = ll_prev l" "ll_next (set_next y v l) x = (if x = y then v else ll_next l x)"
  "ll_prev (set_val y w l) = ll_prev l" "ll_next (set_val y w l) = ll_next l"
  "mFirst (set_prev y v l) = mFirst l" "mFirst (set_next y v l) = mFirst l" "mFirst (set_val y w l) = mFirst l"
  "mLast (set_prev y v l) = mLast l" "mLast (set_next y v l) = mLast l" "mLast (set_val y w l) = mLast l"
  "ll_val (set_prev y v l) = ll_val l" "ll_val (set_next y v l) = ll_val l" "ll_val (set_val y w l) x = (if x = y then w else ll_val l x)"
  by (simp_all add: set_prev_def set_next_def set_val_def)

lemma ll_seg_others [simp]:
  "y \<notin> set xs \<Longrightarrow> ll_seg (set_prev y v l) p xs n = ll_seg l p xs n"
  "y \<notin> set xs \<Longrightarrow> ll_seg (set_next y v l) p xs n = ll_seg l p xs n"
  "ll_seg (set_val y w l) p xs n = ll_seg l p xs n"
  "ll_seg (l\<lparr>mFirst := v\<rparr>) p xs n = ll_seg l p xs n" "ll_seg (l\<lparr>mLast := v\<rparr>) p xs n = ll_seg l p xs n"
  by (auto intro!: ll_seg_cong)

lemma ll_rep_set_val [simp]: "ll_rep (set_val y w l) xs = ll_rep l xs"
  by (simp add: ll_rep_def)

section \<open>The methods on lists\<close>

lemmas ll_expand = ll_rep_def ll_seg_append Let_def

lemma isEmpty_rep: "ll_rep l xs \<Longrightarrow> isEmpty l \<longleftrightarrow> xs = []"
  by (cases xs) (auto simp: ll_rep_def isEmpty_def)

lemma insertAfter_rep:
  assumes "ll_rep l (as @ node # bs)" "newNode \<notin> set (as @ node # bs)" "newNode \<noteq> 0"
  shows "ll_rep (insertAfter node newNode l) (as @ node # newNode # bs)"
  using assms by (cases as rule: rev_cases; cases bs) (auto simp: ll_expand insertAfter_def)

lemma insertBefore_rep:
  assumes "ll_rep l (as @ node # bs)" "newNode \<notin> set (as @ node # bs)" "newNode \<noteq> 0"
  shows "ll_rep (insertBefore node newNode l) (as @ newNode # node # bs)"
  using assms by (cases as rule: rev_cases; cases bs) (auto simp: ll_expand insertBefore_def)

lemma insertHead_rep:
  assumes "ll_rep l xs" "newNode \<notin> set xs" "newNode \<noteq> 0"
  shows "ll_rep (insertHead newNode l) (newNode # xs)"
  using assms by (cases xs) (auto simp: ll_expand insertHead_def)

lemma insertTail_rep:
  assumes "ll_rep l xs" "newNode \<notin> set xs" "newNode \<noteq> 0"
  shows "ll_rep (insertTail newNode l) (xs @ [newNode])"
proof (cases xs rule: rev_cases)
  case Nil
  then show ?thesis using assms insertHead_rep [of l "[]" newNode] by (simp add: insertTail_def ll_rep_def)
next
  case (snoc ys y)
  then show ?thesis using assms by (cases ys rule: rev_cases) (auto simp: ll_expand insertTail_def)
qed

lemma remove_rep:
  assumes "ll_rep l (as @ node # bs)"
  shows "ll_rep (remove node l) (as @ bs)"
  using assms by (cases as rule: rev_cases; cases bs) (auto simp: ll_expand remove_def)

text \<open>Walking along the list, and what the methods leave alone.\<close>

lemma ll_next_rep: "ll_rep l (as @ x # bs) \<Longrightarrow> ll_next l x = hd0 bs 0"
  by (simp add: ll_expand)

lemma ll_prev_rep: "ll_rep l (as @ x # bs) \<Longrightarrow> ll_prev l x = last0 as 0"
  by (simp add: ll_expand)

lemma ll_val_methods [simp]:
  "ll_val (insertAfter x y l) = ll_val l" "ll_val (insertBefore x y l) = ll_val l" "ll_val (insertHead y l) = ll_val l"
  "ll_val (insertTail y l) = ll_val l" "ll_val (remove x l) = ll_val l"
  by (simp_all add: insertAfter_def insertBefore_def insertHead_def insertTail_def remove_def Let_def)

text \<open>The nodes are determined by the list.\<close>

lemma ll_seg_unique:
  "ll_seg l p xs 0 \<Longrightarrow> ll_seg l q ys 0 \<Longrightarrow> hd0 xs 0 = hd0 ys 0 \<Longrightarrow> 0 \<notin> set xs \<Longrightarrow> 0 \<notin> set ys \<Longrightarrow> xs = ys"
proof (induction xs arbitrary: p q ys)
  case Nil
  then show ?case by (cases ys) auto
next
  case (Cons x xs)
  then show ?case by (cases ys) auto
qed

lemma ll_rep_unique: "ll_rep l xs \<Longrightarrow> ll_rep l ys \<Longrightarrow> xs = ys"
  by (rule ll_seg_unique [of l 0 xs 0 ys]) (auto simp: ll_rep_def)

section \<open>Properties\<close>

text \<open>
  C17. The methods of the linked list implement the operations on lists, on the empty list as on any other:
  \<open>isEmpty\<close> tells exactly whether the list has no node, \<open>insertHead\<close> and \<open>insertTail\<close> put a fresh
  node at the two ends, and around every node of the list \<open>insertAfter\<close>, \<open>insertBefore\<close> and
  \<open>remove\<close> leave the nodes in the expected order, linked in both directions and with the right ends. No
  method touches the contents of a node.
\<close>

theorem linked_list_methods:
  assumes "ll_rep l xs" "newNode \<notin> set xs" "newNode \<noteq> 0"
  shows "(isEmpty l \<longleftrightarrow> xs = []) \<and>
    ll_rep (insertHead newNode l) (newNode # xs) \<and> ll_val (insertHead newNode l) = ll_val l \<and>
    ll_rep (insertTail newNode l) (xs @ [newNode]) \<and> ll_val (insertTail newNode l) = ll_val l \<and>
    (\<forall>as node bs. xs = as @ node # bs \<longrightarrow>
       ll_rep (insertAfter node newNode l) (as @ node # newNode # bs) \<and> ll_val (insertAfter node newNode l) = ll_val l \<and>
       ll_rep (insertBefore node newNode l) (as @ newNode # node # bs) \<and> ll_val (insertBefore node newNode l) = ll_val l \<and>
       ll_rep (remove node l) (as @ bs) \<and> ll_val (remove node l) = ll_val l)"
proof (intro conjI allI impI)
  fix as node bs assume "xs = as @ node # bs"
  with assms have *: "ll_rep l (as @ node # bs)" "newNode \<notin> set (as @ node # bs)" "newNode \<noteq> 0" by simp_all
  show "ll_rep (insertAfter node newNode l) (as @ node # newNode # bs)" by (rule insertAfter_rep [OF *])
  show "ll_rep (insertBefore node newNode l) (as @ newNode # node # bs)" by (rule insertBefore_rep [OF *])
  show "ll_rep (remove node l) (as @ bs)" by (rule remove_rep [OF *(1)])
qed (simp_all add: isEmpty_rep [OF assms(1)] insertHead_rep [OF assms] insertTail_rep [OF assms])

definition no_nodes :: "unit linked_list" where
  "no_nodes = \<lparr>mFirst = 0, mLast = 0, ll_prev = \<lambda>_. 0, ll_next = \<lambda>_. 0, ll_val = \<lambda>_. ()\<rparr>"

definition two_nodes :: "unit linked_list" where
  "two_nodes = \<lparr>mFirst = 1, mLast = 2, ll_prev = (\<lambda>_. 0)(2 := 1), ll_next = (\<lambda>_. 0)(1 := 2), ll_val = \<lambda>_. ()\<rparr>"

theorem linked_list_methods_witness:
  "isEmpty no_nodes \<and> ll_rep (insertHead 3 no_nodes) [3] \<and> ll_rep (insertTail 3 no_nodes) [3] \<and>
   \<not> isEmpty two_nodes \<and> ll_rep (insertTail 3 two_nodes) [1, 2, 3] \<and> ll_rep (insertAfter 1 3 two_nodes) [1, 3, 2] \<and>
   ll_rep (insertBefore 1 3 two_nodes) [3, 1, 2] \<and> ll_rep (remove 1 two_nodes) [2]"
proof -
  have none: "ll_rep no_nodes []" by (simp add: no_nodes_def ll_rep_def)
  have two: "ll_rep two_nodes [1, 2]" by (simp add: two_nodes_def ll_rep_def)
  have three: "(3::nat) \<notin> set []" "(3::nat) \<notin> set [1, 2]" "(3::nat) \<noteq> 0" by simp_all
  have split: "[1, 2] = [] @ (1::nat) # [2]" by simp
  from linked_list_methods [OF none three(1,3)] linked_list_methods [OF two three(2,3)] split show ?thesis
    by (metis append.simps(1,2) list.distinct(1))
qed

end
