(* ===== verification/Allocator.thy ===== *)
theory Allocator
  imports Linked_List
begin

text \<open>
  The best-fit allocator of \<^verbatim>\<open>src/hardware/mx5x/libgralloc/allocator.cpp\<close>, which hands out the graphics
  memory in units of 32 bytes. Numbers are natural numbers with the wrap-around of \<open>size_t\<close> and of
  the 28-bit field written out. The page size is a parameter, as are the addresses \<open>new\<close> gives;
  a result of \<open>None\<close> is an abort or a loop that does not end.
\<close>

section \<open>The class\<close>

abbreviation (input) kMemoryAlign :: nat where "kMemoryAlign \<equiv> 32"

definition ENOENT :: int where "ENOENT = 2"
definition ENOMEM :: int where "ENOMEM = 12"
definition EINVAL :: int where "EINVAL = 22"

record chunk_t =
  ck_start :: nat
  ck_size :: nat
  ck_free :: bool

record allocator =
  mList :: "chunk_t linked_list"
  mHeapSize :: nat

definition size_t :: "nat \<Rightarrow> nat" where
  "size_t x = x mod 2 ^ 32"

definition ssize_t :: "nat \<Rightarrow> int" where
  "ssize_t x = (if x < 2 ^ 31 then int x else int x - 2 ^ 32)"

definition bits28 :: "nat \<Rightarrow> nat" where
  "bits28 x = x mod 2 ^ 28"

text \<open>The units from \<open>start\<close> to the next page.\<close>

definition page_extra :: "nat \<Rightarrow> nat \<Rightarrow> nat" where
  "page_extra pagesize start = size_t (2 ^ 32 - start) AND (pagesize div kMemoryAlign - 1)"

definition new_chunk :: "nat \<Rightarrow> nat \<Rightarrow> chunk_t" where
  "new_chunk start sz = \<lparr>ck_start = start, ck_size = bits28 sz, ck_free = True\<rparr>"

definition setSize :: "nat \<Rightarrow> nat \<Rightarrow> nat \<Rightarrow> allocator \<Rightarrow> int \<times> allocator" where
  "setSize pagesize node sz st =
     (if mHeapSize st \<noteq> 0 then (- EINVAL, st)
      else
        let heap = size_t (sz + pagesize - 1) AND (2 ^ 32 - pagesize);
            l = insertHead node (set_val node (new_chunk 0 (heap div kMemoryAlign)) (mList st))
        in (ssize_t sz, st\<lparr>mHeapSize := heap, mList := l\<rparr>))"

text \<open>The search of \<open>alloc\<close>, from \<open>cur\<close> on, with the best chunk so far.\<close>

partial_function (option) alloc_find :: "nat \<Rightarrow> nat \<Rightarrow> chunk_t linked_list \<Rightarrow> nat \<Rightarrow> nat \<Rightarrow> nat option" where
  "alloc_find pagesize sz l cur free_chunk =
     (if cur = 0 then Some free_chunk
      else
        let c = ll_val l cur;
            extra = page_extra pagesize (ck_start c);
            fits = (ck_free c \<and> ck_size c \<ge> size_t (sz + extra));
            free_chunk = (if fits \<and> (free_chunk = 0 \<or> ck_size c < ck_size (ll_val l free_chunk)) then cur else free_chunk)
        in if fits \<and> ck_size c = sz then Some free_chunk
           else alloc_find pagesize sz l (ll_next l cur) free_chunk)"

text \<open>The split of the chunk that was found; \<open>a\<close> and \<open>b\<close> are the addresses of the new chunks.\<close>

definition alloc_split :: "nat \<Rightarrow> nat \<Rightarrow> nat \<Rightarrow> nat \<Rightarrow> nat \<Rightarrow> chunk_t linked_list \<Rightarrow> chunk_t linked_list" where
  "alloc_split pagesize a b sz f l =
     (let free_size = ck_size (ll_val l f);
          l = set_val f ((ll_val l f)\<lparr>ck_free := False, ck_size := bits28 sz\<rparr>) l
      in if free_size > sz then
           let extra = page_extra pagesize (ck_start (ll_val l f));
               l = (if extra \<noteq> 0 then
                      let l = set_val a (new_chunk (ck_start (ll_val l f)) extra) l;
                          l = set_val f ((ll_val l f)\<lparr>ck_start := size_t (ck_start (ll_val l f) + extra)\<rparr>) l
                      in insertBefore f a l
                    else l);
               tail_free = ssize_t (size_t (free_size + 2 ^ 32 - size_t (sz + extra)))
           in if tail_free > 0 then
                insertAfter f b (set_val b (new_chunk (size_t (ck_start (ll_val l f) + ck_size (ll_val l f))) (nat tail_free)) l)
              else l
         else l)"

definition alloc :: "nat \<Rightarrow> nat \<Rightarrow> nat \<Rightarrow> nat \<Rightarrow> allocator \<Rightarrow> (int \<times> allocator) option" where
  "alloc pagesize a b sz st =
     (if sz = 0 then Some (0, st)
      else do {
        let sz = size_t (sz + kMemoryAlign - 1) div kMemoryAlign;
        f \<leftarrow> alloc_find pagesize sz (mList st) (mFirst (mList st)) 0;
        if f \<noteq> 0 then
          let l = alloc_split pagesize a b sz f (mList st)
          in Some (ssize_t (size_t (ck_start (ll_val l f) * kMemoryAlign)), st\<lparr>mList := l\<rparr>)
        else Some (- ENOMEM, st)
      })"

definition allocate :: "nat \<Rightarrow> nat \<Rightarrow> nat \<Rightarrow> nat \<Rightarrow> allocator \<Rightarrow> (int \<times> allocator) option" where
  "allocate pagesize a b sz st =
     (if mHeapSize st = 0 then Some (- EINVAL, st) else alloc pagesize a b sz st)"

partial_function (option) dealloc_find :: "nat \<Rightarrow> chunk_t linked_list \<Rightarrow> nat \<Rightarrow> nat option" where
  "dealloc_find start l cur =
     (if cur = 0 then Some 0
      else if ck_start (ll_val l cur) = start then Some cur
      else dealloc_find start l (ll_next l cur))"

text \<open>The loop that merges free neighbours.\<close>

partial_function (option) dealloc_merge :: "chunk_t linked_list \<Rightarrow> nat \<Rightarrow> nat \<Rightarrow> (nat \<times> chunk_t linked_list) option" where
  "dealloc_merge l cur freed =
     (let p = ll_prev l cur; n = ll_next l cur;
          (freed, l) =
            (if p \<noteq> 0 \<and> (ck_free (ll_val l p) \<or> ck_size (ll_val l cur) = 0)
             then (p, remove cur (set_val p ((ll_val l p)\<lparr>ck_size := bits28 (ck_size (ll_val l p) + ck_size (ll_val l cur))\<rparr>) l))
             else (freed, l))
      in if n \<noteq> 0 \<and> ck_free (ll_val l n) then dealloc_merge l n freed else Some (freed, l))"

text \<open>The fatal checks abort, unless they are stripped from the build.\<close>

definition dealloc :: "bool \<Rightarrow> nat \<Rightarrow> allocator \<Rightarrow> (nat \<times> allocator) option" where
  "dealloc ndebug start st =
     do {
       let start = start div kMemoryAlign;
       cur \<leftarrow> dealloc_find start (mList st) (mFirst (mList st));
       if cur = 0 then Some (0, st)
       else if \<not> ndebug \<and> ck_free (ll_val (mList st) cur) then None
       else do {
         (freed, l) \<leftarrow> dealloc_merge (set_val cur ((ll_val (mList st) cur)\<lparr>ck_free := True\<rparr>) (mList st)) cur cur;
         if \<not> ndebug \<and> \<not> ck_free (ll_val l freed) then None else Some (freed, st\<lparr>mList := l\<rparr>)
       }
     }"

definition deallocate :: "bool \<Rightarrow> nat \<Rightarrow> allocator \<Rightarrow> (int \<times> allocator) option" where
  "deallocate ndebug offset st =
     (if mHeapSize st = 0 then Some (- EINVAL, st)
      else do {
        (freed, st) \<leftarrow> dealloc ndebug offset st;
        Some (if freed \<noteq> 0 then 0 else - ENOENT, st)
      })"

text \<open>The destructor.\<close>

partial_function (option) allocator_destroy :: "allocator \<Rightarrow> allocator option" where
  "allocator_destroy st =
     (if isEmpty (mList st) then Some st else allocator_destroy (st\<lparr>mList := remove (mFirst (mList st)) (mList st)\<rparr>))"

end
