(* ===== verification/Allocator_Blocks.thy ===== *)
theory Allocator_Blocks
  imports Allocator
begin

text \<open>
  What the best-fit allocator promises: its chunks tile the heap, the blocks handed out are disjoint
  and start at pages, free chunks are merged, a block is taken from a smallest chunk it fits in, and
  freeing it restores the chunks. The loops over the linked list are first shown to be functions on
  the list of its nodes, and so to end.
\<close>

section \<open>Pages\<close>

text \<open>What is known of the page size: a power of two, from one unit of the allocator on.\<close>

definition page_ok :: "nat \<Rightarrow> bool" where
  "page_ok pg = (\<exists>k. pg = 2 ^ k \<and> 5 \<le> k \<and> k \<le> 20)"

definition page_units :: "nat \<Rightarrow> nat" where
  "page_units pg = pg div kMemoryAlign"

lemma page_units_power:
  assumes "page_ok pg"
  shows "\<exists>j \<le> 15. page_units pg = 2 ^ j \<and> pg = 2 ^ j * kMemoryAlign"
proof -
  from assms obtain k where k: "pg = 2 ^ k" "5 \<le> k" "k \<le> 20" by (auto simp: page_ok_def)
  then have "pg = 2 ^ (k - 5) * 2 ^ 5" by (metis le_add_diff_inverse2 power_add)
  then have "page_units pg = 2 ^ (k - 5) \<and> pg = 2 ^ (k - 5) * kMemoryAlign" by (simp add: page_units_def)
  moreover have "k - 5 \<le> 15" using k(3) by simp
  ultimately show ?thesis by blast
qed

lemma page_units_bound: "page_ok pg \<Longrightarrow> 0 < page_units pg \<and> page_units pg \<le> 2 ^ 15"
  using page_units_power [of pg] power_increasing [of _ 15 "2 :: nat"] by fastforce

lemma page_extra_eq:
  assumes "page_ok pg" "s < 2 ^ 32"
  shows "page_extra pg s = (2 ^ 32 - s) mod page_units pg"
proof -
  from page_units_power [OF assms(1)] obtain j where j: "j \<le> 15" "page_units pg = 2 ^ j" by auto
  have "(2 ^ j :: nat) dvd 2 ^ 32" using j(1) by (intro le_imp_power_dvd) simp
  then have "(2 ^ 32 - s) mod 2 ^ 32 mod 2 ^ j = (2 ^ 32 - s) mod 2 ^ j" by (rule mod_mod_cancel)
  moreover have "x AND (2 ^ j - 1) = x mod 2 ^ j" for x :: nat
    by (metis mask_eq_exp_minus_1 take_bit_eq_mask take_bit_eq_mod)
  ultimately show ?thesis using j(2) by (simp add: page_extra_def size_t_def page_units_def)
qed

lemma page_extra_facts:
  assumes "page_ok pg" "s < 2 ^ 32"
  shows "page_extra pg s < page_units pg" "(s + page_extra pg s) mod page_units pg = 0"
    "page_extra pg s = 0 \<longleftrightarrow> s mod page_units pg = 0"
proof -
  from page_units_power [OF assms(1)] obtain j where j: "j \<le> 15" "page_units pg = 2 ^ j" by auto
  show less: "page_extra pg s < page_units pg"
    unfolding page_extra_eq [OF assms] using page_units_bound [OF assms(1)] by simp
  have "(s + page_extra pg s) mod page_units pg = (s + (2 ^ 32 - s)) mod page_units pg"
    unfolding page_extra_eq [OF assms] by (simp add: mod_add_right_eq)
  also have "\<dots> = 2 ^ 32 mod 2 ^ j" using assms(2) j by simp
  also have "\<dots> = 0" using j(1) le_imp_power_dvd [of j 32 "2 :: nat"] by (simp only: mod_eq_0_iff_dvd)
  finally show sum: "(s + page_extra pg s) mod page_units pg = 0" .
  show "page_extra pg s = 0 \<longleftrightarrow> s mod page_units pg = 0"
  proof
    assume "s mod page_units pg = 0"
    then have "page_extra pg s mod page_units pg = 0" using sum by (simp only: mod_eq_0_iff_dvd dvd_add_right_iff)
    with less show "page_extra pg s = 0" by simp
  qed (use sum in simp)
qed

section \<open>The search\<close>

definition fits :: "nat \<Rightarrow> nat \<Rightarrow> chunk_t \<Rightarrow> bool" where
  "fits pg sz c = (ck_free c \<and> ck_size c \<ge> size_t (sz + page_extra pg (ck_start c)))"

fun find_list :: "nat \<Rightarrow> nat \<Rightarrow> (nat \<Rightarrow> chunk_t) \<Rightarrow> nat list \<Rightarrow> nat \<Rightarrow> nat" where
  "find_list pg sz v [] best = best"
| "find_list pg sz v (x # xs) best =
     (let best' = (if fits pg sz (v x) \<and> (best = 0 \<or> ck_size (v x) < ck_size (v best)) then x else best)
      in if fits pg sz (v x) \<and> ck_size (v x) = sz then best' else find_list pg sz v xs best')"

lemma alloc_find_eq:
  assumes "ll_rep l (as @ bs)"
  shows "alloc_find pg sz l (hd0 bs 0) best = Some (find_list pg sz (ll_val l) bs best)"
  using assms
proof (induction bs arbitrary: as best)
  case Nil
  then show ?case by (simp add: alloc_find.simps)
next
  case (Cons x bs)
  have "x \<noteq> 0" using Cons.prems by (auto simp: ll_rep_def)
  moreover have "ll_next l x = hd0 bs 0" using Cons.prems by (rule ll_next_rep)
  ultimately show ?case using Cons.IH [of "as @ [x]"] Cons.prems
    by (subst alloc_find.simps) (simp add: fits_def Let_def)
qed

text \<open>The search gives a smallest chunk that fits, if one fits.\<close>

lemma find_list_spec:
  assumes "0 \<notin> set xs" "best = 0 \<or> fits pg sz (v best)" "\<And>x. x \<in> set xs \<Longrightarrow> fits pg sz (v x) \<Longrightarrow> sz \<le> ck_size (v x)"
    "best \<noteq> 0 \<Longrightarrow> sz \<le> ck_size (v best)"
  shows "if best = 0 \<and> (\<forall>x \<in> set xs. \<not> fits pg sz (v x)) then find_list pg sz v xs best = 0
    else find_list pg sz v xs best \<noteq> 0 \<and> find_list pg sz v xs best \<in> insert best (set xs) \<and>
      fits pg sz (v (find_list pg sz v xs best)) \<and>
      (\<forall>x \<in> set xs. fits pg sz (v x) \<longrightarrow> ck_size (v (find_list pg sz v xs best)) \<le> ck_size (v x)) \<and>
      (best \<noteq> 0 \<longrightarrow> ck_size (v (find_list pg sz v xs best)) \<le> ck_size (v best))"
  using assms
proof (induction xs arbitrary: best)
  case (Cons x xs)
  define best' where "best' = (if fits pg sz (v x) \<and> (best = 0 \<or> ck_size (v x) < ck_size (v best)) then x else best)"
  have b: "best' = 0 \<or> fits pg sz (v best')" "best' \<noteq> 0 \<Longrightarrow> sz \<le> ck_size (v best')"
    using Cons.prems by (auto simp: best'_def)
  have better: "fits pg sz (v x) \<Longrightarrow> best' \<noteq> 0 \<and> ck_size (v best') \<le> ck_size (v x)" "best \<noteq> 0 \<Longrightarrow> best' \<noteq> 0 \<and> ck_size (v best') \<le> ck_size (v best)"
    "best' \<in> {best, x}" "best' \<noteq> 0 \<Longrightarrow> best \<noteq> 0 \<or> fits pg sz (v x)"
    using Cons.prems(1) by (auto simp: best'_def)
  show ?case
  proof (cases "fits pg sz (v x) \<and> ck_size (v x) = sz")
    case True
    then have "find_list pg sz v (x # xs) best = best'" by (simp add: best'_def Let_def)
    moreover have "\<forall>y \<in> set (x # xs). fits pg sz (v y) \<longrightarrow> ck_size (v best') \<le> ck_size (v y)"
      using better(1) True Cons.prems(3) by (metis order_trans)
    ultimately show ?thesis using True b better by auto
  next
    case False
    then have run: "find_list pg sz v (x # xs) best = find_list pg sz v xs best'" by (auto simp: best'_def Let_def)
    show ?thesis using Cons.IH [of best'] Cons.prems b better unfolding run by (auto split: if_splits)
  qed
qed auto

section \<open>The split\<close>

text \<open>The chunks a free chunk is cut into.\<close>

definition carve :: "nat \<Rightarrow> nat \<Rightarrow> chunk_t \<Rightarrow> chunk_t list" where
  "carve pg sz c =
     (let e = page_extra pg (ck_start c) in
      (if e \<noteq> 0 then [\<lparr>ck_start = ck_start c, ck_size = e, ck_free = True\<rparr>] else []) @
      [\<lparr>ck_start = ck_start c + e, ck_size = sz, ck_free = False\<rparr>] @
      (if sz + e < ck_size c then [\<lparr>ck_start = ck_start c + e + sz, ck_size = ck_size c - (sz + e), ck_free = True\<rparr>] else []))"

definition carve_nodes :: "nat \<Rightarrow> nat \<Rightarrow> nat \<Rightarrow> nat \<Rightarrow> nat \<Rightarrow> chunk_t \<Rightarrow> nat list" where
  "carve_nodes pg a b sz f c =
     (let e = page_extra pg (ck_start c) in (if e \<noteq> 0 then [a] else []) @ [f] @ (if sz + e < ck_size c then [b] else []))"

text \<open>No wrap-around happens on a heap of at most two gigabytes, which has at most \<open>2 ^ 26\<close> units.\<close>

lemma small: "x \<le> 2 ^ 26 \<Longrightarrow> bits28 x = x" "x \<le> 2 ^ 27 \<Longrightarrow> size_t x = x" "x \<le> 2 ^ 27 \<Longrightarrow> ssize_t x = int x"
  by (simp_all add: bits28_def size_t_def ssize_t_def)

lemma tail_small:
  assumes "x \<le> y" "y \<le> 2 ^ 26"
  shows "size_t (y + 2 ^ 32 - x) = y - x"
proof -
  have sum: "y + 2 ^ 32 - x = (y - x) + 2 ^ 32" using assms(1) by linarith
  have "y - x < 2 ^ 32" using assms(2) by simp
  then show ?thesis unfolding size_t_def sum mod_add_self2 by (rule mod_less)
qed

lemma alloc_split_rep:
  assumes "ll_rep l (as @ f # bs)" "c = ll_val l f" "sz + page_extra pg (ck_start c) \<le> ck_size c" "ck_start c + ck_size c \<le> 2 ^ 26" "ck_free c"
    and "a \<notin> set (as @ f # bs)" "b \<notin> set (as @ f # bs)" "a \<noteq> b" "a \<noteq> 0" "b \<noteq> 0"
  shows "ll_rep (alloc_split pg a b sz f l) (as @ carve_nodes pg a b sz f c @ bs)"
    "map (ll_val (alloc_split pg a b sz f l)) (as @ carve_nodes pg a b sz f c @ bs) = map (ll_val l) as @ carve pg sz c @ map (ll_val l) bs"
    "ck_start (ll_val (alloc_split pg a b sz f l) f) = ck_start c + page_extra pg (ck_start c)"
proof -
  let ?e = "page_extra pg (ck_start c)"
  define l1 where "l1 = set_val f (c\<lparr>ck_free := False, ck_size := sz\<rparr>) l"
  define l2 where "l2 = (if ?e \<noteq> 0 then insertBefore f a (set_val f (c\<lparr>ck_free := False, ck_size := sz, ck_start := ck_start c + ?e\<rparr>)
      (set_val a \<lparr>ck_start = ck_start c, ck_size = ?e, ck_free = True\<rparr> l1)) else l1)"
  define l3 where "l3 = (if sz + ?e < ck_size c then
      insertAfter f b (set_val b \<lparr>ck_start = ck_start c + ?e + sz, ck_size = ck_size c - (sz + ?e), ck_free = True\<rparr> l2) else l2)"
  have bounds: "sz \<le> 67108864" "?e \<le> 67108864" "ck_start c + ?e \<le> 134217728" "sz + ?e \<le> 134217728" "ck_start c + (?e + sz) \<le> 134217728"
    "ck_size c \<le> 67108864" "ck_size c - (sz + ?e) \<le> 67108864" "ck_size c - (sz + ?e) \<le> 134217728" "a \<noteq> f"
    using assms(3,4,6) by auto
  have split: "alloc_split pg a b sz f l = l3"
  proof (cases "sz < ck_size c")
    case True
    then show ?thesis using assms(3) bounds
      by (simp add: alloc_split_def assms(2) [symmetric] l1_def l2_def l3_def Let_def small [simplified] tail_small [simplified] new_chunk_def add.assoc del: of_nat_diff)
  next
    case False
    then have "?e = 0" using assms(3) by simp
    then show ?thesis using False bounds
      by (simp add: alloc_split_def assms(2) [symmetric] l1_def l2_def l3_def Let_def small [simplified])
  qed
  have "ll_rep l1 (as @ f # bs)" using assms(1) by (simp add: l1_def)
  then have l2: "ll_rep l2 (as @ (if ?e \<noteq> 0 then [a] else []) @ f # bs)"
    using assms(6,9) by (auto simp: l2_def intro: insertBefore_rep)
  have "ll_rep l3 (as @ (if ?e \<noteq> 0 then [a] else []) @ f # (if sz + ?e < ck_size c then [b] else []) @ bs)"
    using l2 assms(7,8,10) insertAfter_rep [of "set_val b w l2" "as @ (if ?e \<noteq> 0 then [a] else [])" f bs b for w]
    by (simp add: l3_def)
  then show "ll_rep (alloc_split pg a b sz f l) (as @ carve_nodes pg a b sz f c @ bs)"
    unfolding split by (simp add: carve_nodes_def Let_def)
  have v: "ll_val l3 x = (if x = f then \<lparr>ck_start = ck_start c + ?e, ck_size = sz, ck_free = False\<rparr>
      else if x = b \<and> sz + ?e < ck_size c then \<lparr>ck_start = ck_start c + ?e + sz, ck_size = ck_size c - (sz + ?e), ck_free = True\<rparr>
      else if x = a \<and> ?e \<noteq> 0 then \<lparr>ck_start = ck_start c, ck_size = ?e, ck_free = True\<rparr> else ll_val l x)" for x
    using assms(6-8) by (cases c) (auto simp: l1_def l2_def l3_def)
  have "f \<notin> set as" "f \<notin> set bs" using assms(1) by (auto simp: ll_rep_def)
  then show "map (ll_val (alloc_split pg a b sz f l)) (as @ carve_nodes pg a b sz f c @ bs) = map (ll_val l) as @ carve pg sz c @ map (ll_val l) bs"
    using assms(6-8) unfolding split by (auto simp: v carve_nodes_def carve_def Let_def)
  show "ck_start (ll_val (alloc_split pg a b sz f l) f) = ck_start c + ?e" unfolding split by (simp add: v)
qed

section \<open>The chunks\<close>

text \<open>The chunks lie side by side from unit \<open>s\<close> to unit \<open>e\<close>, none of them empty.\<close>

fun tiles :: "nat \<Rightarrow> chunk_t list \<Rightarrow> nat \<Rightarrow> bool" where
  "tiles s [] e = (s = e)"
| "tiles s (c # cs) e = (ck_start c = s \<and> 0 < ck_size c \<and> tiles (s + ck_size c) cs e)"

definition apart :: "chunk_t \<Rightarrow> chunk_t \<Rightarrow> bool" where
  "apart c d = (\<not> (ck_free c \<and> ck_free d))"

definition chunks_ok :: "nat \<Rightarrow> nat \<Rightarrow> chunk_t list \<Rightarrow> bool" where
  "chunks_ok pg n cs = (tiles 0 cs n \<and> successively apart cs \<and>
     (\<forall>c \<in> set cs. \<not> ck_free c \<longrightarrow> ck_start c mod page_units pg = 0))"

definition arena :: "nat \<Rightarrow> allocator \<Rightarrow> nat list \<Rightarrow> chunk_t list \<Rightarrow> bool" where
  "arena pg st xs cs = (ll_rep (mList st) xs \<and> cs = map (ll_val (mList st)) xs \<and>
     chunks_ok pg (mHeapSize st div kMemoryAlign) cs \<and> 0 < mHeapSize st \<and> mHeapSize st \<le> 2 ^ 31)"

lemma tiles_append: "tiles s (xs @ ys) e \<longleftrightarrow> (\<exists>m. tiles s xs m \<and> tiles m ys e)"
  by (induction xs arbitrary: s) auto

lemma tiles_mono: "tiles s cs e \<Longrightarrow> s \<le> e"
proof (induction cs arbitrary: s)
  case (Cons c cs)
  then show ?case by fastforce
qed simp

lemma tiles_in: "tiles s cs e \<Longrightarrow> c \<in> set cs \<Longrightarrow> s \<le> ck_start c \<and> ck_start c + ck_size c \<le> e \<and> 0 < ck_size c"
proof (induction cs arbitrary: s)
  case (Cons d cs)
  then show ?case using tiles_mono [of "s + ck_size d" cs e] by fastforce
qed simp

text \<open>Different chunks have no unit in common, and so start at different units.\<close>

lemma tiles_disjoint: "tiles s (as @ c # bs) e \<Longrightarrow> d \<in> set as \<Longrightarrow> ck_start d + ck_size d \<le> ck_start c"
  using tiles_in by (fastforce simp: tiles_append)

lemma tiles_start: "tiles s (as @ c # bs) e \<Longrightarrow> d \<in> set as \<Longrightarrow> ck_start d \<noteq> ck_start c"
proof -
  assume t: "tiles s (as @ c # bs) e" and d: "d \<in> set as"
  from t have "0 < ck_size d" by (rule tiles_in [THEN conjunct2, THEN conjunct2]) (use d in simp)
  with tiles_disjoint [OF t d] show ?thesis by simp
qed

lemma tiles_carve:
  assumes "tiles s (as @ c # bs) e" "sz + page_extra pg (ck_start c) \<le> ck_size c" "0 < sz"
  shows "tiles s (as @ carve pg sz c @ bs) e"
proof -
  have "tiles (ck_start c) (carve pg sz c) (ck_start c + ck_size c)" using assms(2,3) by (auto simp: carve_def Let_def)
  with assms(1) show ?thesis by (auto simp: tiles_append)
qed

lemma apart_carve:
  assumes "successively apart (as @ c # bs)" "ck_free c"
  shows "successively apart (as @ carve pg sz c @ bs)"
  using assms by (auto simp: successively_append_iff successively_Cons carve_def Let_def apart_def)

lemma chunks_ok_carve:
  assumes "page_ok pg" "chunks_ok pg n (as @ c # bs)" "n \<le> 2 ^ 26" "ck_free c" "sz + page_extra pg (ck_start c) \<le> ck_size c" "0 < sz"
  shows "chunks_ok pg n (as @ carve pg sz c @ bs)"
proof -
  have "ck_start c + ck_size c \<le> n" using assms(2) tiles_in [of 0 "as @ c # bs" n c] by (simp add: chunks_ok_def)
  then have "(ck_start c + page_extra pg (ck_start c)) mod page_units pg = 0"
    using assms(3) by (intro page_extra_facts(2) [OF assms(1)]) simp
  then have "\<forall>d \<in> set (carve pg sz c). \<not> ck_free d \<longrightarrow> ck_start d mod page_units pg = 0"
    by (auto simp: carve_def Let_def)
  with assms(2,4-6) show ?thesis by (simp add: chunks_ok_def tiles_carve apart_carve ball_Un)
qed

section \<open>Allocation\<close>

definition units :: "nat \<Rightarrow> nat" where
  "units n = (n + (kMemoryAlign - 1)) div kMemoryAlign"

definition room :: "nat \<Rightarrow> nat \<Rightarrow> chunk_t \<Rightarrow> bool" where
  "room pg n c = (ck_free c \<and> units n + page_extra pg (ck_start c) \<le> ck_size c)"

definition fresh :: "nat \<Rightarrow> nat \<Rightarrow> nat list \<Rightarrow> bool" where
  "fresh a b xs = (a \<notin> set xs \<and> b \<notin> set xs \<and> a \<noteq> b \<and> a \<noteq> 0 \<and> b \<noteq> 0)"

text \<open>A request the rounding to units does not wrap around.\<close>

definition request_ok :: "nat \<Rightarrow> bool" where
  "request_ok n = (0 < n \<and> n + (kMemoryAlign - 1) < 2 ^ 32)"

lemma units_bound: "request_ok n \<Longrightarrow> 0 < units n \<and> units n \<le> 2 ^ 27"
  by (auto simp: units_def request_ok_def)

lemma arena_in:
  assumes "arena pg st xs cs" "c \<in> set cs"
  shows "ck_start c + ck_size c \<le> 2 ^ 26" "0 < ck_size c"
proof -
  have "tiles 0 cs (mHeapSize st div kMemoryAlign)" "mHeapSize st div kMemoryAlign \<le> 2 ^ 26"
    using assms(1) by (auto simp: arena_def chunks_ok_def)
  with tiles_in [OF this(1) assms(2)] show "ck_start c + ck_size c \<le> 2 ^ 26" "0 < ck_size c" by auto
qed

lemma fits_room:
  assumes "page_ok pg" "request_ok n" "ck_start c \<le> 2 ^ 26"
  shows "fits pg (units n) c = room pg n c"
proof -
  have "page_extra pg (ck_start c) < 2 ^ 15"
    using page_extra_facts(1) [OF assms(1), of "ck_start c"] page_units_bound [OF assms(1)] assms(3) by simp
  then have "units n + page_extra pg (ck_start c) < 2 ^ 32" using units_bound [OF assms(2)] by simp
  then show ?thesis by (simp add: fits_def room_def size_t_def)
qed

text \<open>The whole of an allocation, in terms of the chunks.\<close>

lemma allocate_chunks:
  assumes "page_ok pg" "arena pg st xs cs" "fresh a b xs" "request_ok n"
  shows "if \<exists>c \<in> set cs. room pg n c then
      \<exists>as c bs st' xs'. cs = as @ c # bs \<and> room pg n c \<and> (\<forall>d \<in> set cs. room pg n d \<longrightarrow> ck_size c \<le> ck_size d) \<and>
        allocate pg a b n st = Some (int ((ck_start c + page_extra pg (ck_start c)) * kMemoryAlign), st') \<and>
        arena pg st' xs' (as @ carve pg (units n) c @ bs) \<and> mHeapSize st' = mHeapSize st
    else allocate pg a b n st = Some (- ENOMEM, st)"
proof -
  let ?l = "mList st" let ?v = "ll_val ?l" let ?u = "units n"
  have rep: "ll_rep ?l xs" and cs: "cs = map ?v xs" and heap: "0 < mHeapSize st" "mHeapSize st \<le> 2 ^ 31"
    and ok: "chunks_ok pg (mHeapSize st div kMemoryAlign) cs" using assms(2) by (auto simp: arena_def)
  have u: "0 < ?u" "?u \<le> 2 ^ 27" "size_t (n + kMemoryAlign - 1) div kMemoryAlign = ?u"
    using units_bound [OF assms(4)] assms(4) by (auto simp: units_def request_ok_def size_t_def)
  have fits: "fits pg ?u c = room pg n c" if "c \<in> set cs" for c
    using arena_in [OF assms(2) that] by (intro fits_room [OF assms(1,4)]) simp
  define f where "f = find_list pg ?u ?v xs 0"
  have find: "alloc_find pg ?u ?l (mFirst ?l) 0 = Some f"
    using alloc_find_eq [of ?l "[]" xs pg ?u 0] rep by (simp add: ll_rep_def f_def)
  have sz: "\<And>x. x \<in> set xs \<Longrightarrow> fits pg ?u (?v x) \<Longrightarrow> ?u \<le> ck_size (?v x)" using fits by (auto simp: cs room_def)
  have "0 \<notin> set xs" using rep by (simp add: ll_rep_def)
  from find_list_spec [OF this, of 0 pg ?u ?v] sz have spec: "if \<forall>x \<in> set xs. \<not> fits pg ?u (?v x) then f = 0
    else f \<noteq> 0 \<and> f \<in> set xs \<and> fits pg ?u (?v f) \<and> (\<forall>x \<in> set xs. fits pg ?u (?v x) \<longrightarrow> ck_size (?v f) \<le> ck_size (?v x))"
    by (auto simp: f_def split: if_splits)
  show ?thesis
  proof (cases "\<exists>c \<in> set cs. room pg n c")
    case False
    then have "f = 0" using spec fits by (auto simp: cs split: if_splits)
    with find heap False show ?thesis using assms(4) u(3) by (simp add: allocate_def alloc_def request_ok_def)
  next
    case True
    then have f: "f \<noteq> 0" "f \<in> set xs" "fits pg ?u (?v f)" and best: "\<forall>x \<in> set xs. fits pg ?u (?v x) \<longrightarrow> ck_size (?v f) \<le> ck_size (?v x)"
      using spec fits by (auto simp: cs split: if_splits)
    obtain as bs where xs: "xs = as @ f # bs" using f(2) by (auto simp: in_set_conv_decomp)
    let ?c = "?v f"
    have room: "room pg n ?c" using f fits by (auto simp: cs)
    have c: "ck_free ?c" "?u + page_extra pg (ck_start ?c) \<le> ck_size ?c" "ck_start ?c + ck_size ?c \<le> 2 ^ 26"
      using room arena_in [OF assms(2), of ?c] f(2) by (auto simp: room_def cs)
    let ?l' = "alloc_split pg a b ?u f ?l"
    have split: "ll_rep ?l' (as @ carve_nodes pg a b ?u f ?c @ bs)"
        "map (ll_val ?l') (as @ carve_nodes pg a b ?u f ?c @ bs) = map ?v as @ carve pg ?u ?c @ map ?v bs"
        "ck_start (ll_val ?l' f) = ck_start ?c + page_extra pg (ck_start ?c)"
      by (rule alloc_split_rep [of ?l as f bs ?c]; use rep c assms(3) in \<open>simp add: xs fresh_def\<close>)+
    let ?st = "st\<lparr>mList := ?l'\<rparr>" and ?o = "ck_start ?c + page_extra pg (ck_start ?c)"
    have "?o * kMemoryAlign < 2 ^ 31" using c u(1) by simp
    then have "ssize_t (size_t (?o * kMemoryAlign)) = int (?o * kMemoryAlign)" by (simp add: ssize_t_def size_t_def)
    then have run: "allocate pg a b n st = Some (int (?o * kMemoryAlign), ?st)"
      using find f(1) heap assms(4) u(3) split(3) by (simp add: allocate_def alloc_def request_ok_def)
    have cs': "cs = map ?v as @ ?c # map ?v bs" using cs xs by simp
    have "chunks_ok pg (mHeapSize st div kMemoryAlign) (map ?v as @ carve pg ?u ?c @ map ?v bs)"
      by (rule chunks_ok_carve [OF assms(1) ok [unfolded cs']]) (use heap c u(1) in simp_all)
    then have arena': "arena pg ?st (as @ carve_nodes pg a b ?u f ?c @ bs) (map ?v as @ carve pg ?u ?c @ map ?v bs)"
      using split(1) heap by (simp add: arena_def split(2) [symmetric])
    have "\<forall>d \<in> set cs. room pg n d \<longrightarrow> ck_size ?c \<le> ck_size d" using best fits by (auto simp: cs)
    moreover have "mHeapSize ?st = mHeapSize st" by simp
    ultimately show ?thesis unfolding if_P [OF True] using cs' room run arena' by blast
  qed
qed

end
