(* ===== verification/Allocator_Free.thy ===== *)
theory Allocator_Free
  imports Allocator_Blocks
begin

text \<open>
  Freeing a block of the best-fit allocator, and its properties: the loops of \<open>dealloc\<close> in terms of
  the chunks, the contract of the allocator as a locale, and what holds after any sequence of
  requests.
\<close>

section \<open>The search for the block\<close>

lemma dealloc_find_eq:
  assumes "ll_rep l (as @ bs)"
  shows "dealloc_find s l (hd0 bs 0) = Some (case find (\<lambda>x. ck_start (ll_val l x) = s) bs of None \<Rightarrow> 0 | Some x \<Rightarrow> x)"
  using assms
proof (induction bs arbitrary: as)
  case Nil
  then show ?case by (simp add: dealloc_find.simps)
next
  case (Cons x bs)
  have "x \<noteq> 0" using Cons.prems by (auto simp: ll_rep_def)
  moreover have "ll_next l x = hd0 bs 0" using Cons.prems by (rule ll_next_rep)
  ultimately show ?case using Cons.IH [of "as @ [x]"] Cons.prems by (subst dealloc_find.simps) simp
qed

lemma find_in_tiles:
  assumes "tiles s (map v (as @ x # bs)) e"
  shows "find (\<lambda>y. ck_start (v y) = ck_start (v x)) (as @ x # bs) = Some x"
proof -
  have "ck_start (v y) \<noteq> ck_start (v x)" if "y \<in> set as" for y
    using tiles_start [of s "map v as" "v x" "map v bs" e "v y"] assms that by simp
  then show ?thesis by (induction as) auto
qed

section \<open>Merging\<close>

text \<open>The chunk before a freed one takes it in, if it is free; then the result takes in the one behind.\<close>

definition merge_left :: "chunk_t list \<Rightarrow> chunk_t \<Rightarrow> chunk_t list \<times> chunk_t" where
  "merge_left as c =
     (if as \<noteq> [] \<and> ck_free (last as)
      then (butlast as, (last as)\<lparr>ck_size := ck_size (last as) + ck_size c\<rparr>) else (as, c\<lparr>ck_free := True\<rparr>))"

definition merge_right :: "chunk_t list \<Rightarrow> chunk_t \<Rightarrow> chunk_t list \<Rightarrow> chunk_t list" where
  "merge_right as d bs =
     (if bs \<noteq> [] \<and> ck_free (hd bs) then as @ d\<lparr>ck_size := ck_size d + ck_size (hd bs)\<rparr> # tl bs else as @ d # bs)"

definition release :: "chunk_t list \<Rightarrow> chunk_t \<Rightarrow> chunk_t list \<Rightarrow> chunk_t list" where
  "release as c bs = (case merge_left as c of (as', d) \<Rightarrow> merge_right as' d bs)"

text \<open>A free chunk, with a free one behind it and no further one.\<close>

lemma dealloc_merge_right:
  assumes "ll_rep l (as @ p # n # bs)" "ck_free (ll_val l p)" "bs \<noteq> [] \<Longrightarrow> \<not> ck_free (ll_val l (hd bs))"
    and "ck_size (ll_val l p) + ck_size (ll_val l n) \<le> 2 ^ 26"
  shows "\<exists>l'. dealloc_merge l n freed = Some (p, l') \<and> ll_rep l' (as @ p # bs) \<and>
    ll_val l' = (ll_val l)(p := (ll_val l p)\<lparr>ck_size := ck_size (ll_val l p) + ck_size (ll_val l n)\<rparr>)"
proof -
  let ?l = "remove n (set_val p ((ll_val l p)\<lparr>ck_size := ck_size (ll_val l p) + ck_size (ll_val l n)\<rparr>) l)"
  have "p \<noteq> 0" "p \<noteq> n" using assms(1) by (auto simp: ll_rep_def)
  moreover have "ll_prev l n = p" using ll_prev_rep [of l "as @ [p]" n bs] assms(1) by simp
  moreover have "ll_next l n = hd0 bs 0" using ll_next_rep [of l "as @ [p]" n bs] assms(1) by simp
  moreover have "hd0 bs 0 \<noteq> 0 \<Longrightarrow> hd0 bs 0 \<noteq> p \<and> \<not> ck_free (ll_val l (hd0 bs 0))"
    using assms(1,3) by (cases bs) (auto simp: ll_rep_def)
  ultimately have "dealloc_merge l n freed = Some (p, ?l)"
    using assms(2,4) by (subst dealloc_merge.simps) (auto simp: Let_def small)
  moreover have "ll_rep ?l (as @ p # bs)"
    using remove_rep [of "set_val p w l" "as @ [p]" n bs for w] assms(1) by simp
  ultimately show ?thesis by (auto simp: fun_eq_iff)
qed

text \<open>The rest of the loop, once the freed chunk \<open>p\<close> is as it is to the left.\<close>

lemma dealloc_merge_rest:
  assumes "ll_rep l (as @ p # bs)" "ck_free (ll_val l p)" "successively apart (map (ll_val l) bs)"
    and "sum_list (map (ck_size \<circ> ll_val l) (p # bs)) \<le> 2 ^ 26"
  shows "\<exists>f l' xs. (if hd0 bs 0 \<noteq> 0 \<and> ck_free (ll_val l (hd0 bs 0)) then dealloc_merge l (hd0 bs 0) p else Some (p, l)) = Some (f, l') \<and>
    f \<noteq> 0 \<and> ck_free (ll_val l' f) \<and> ll_rep l' xs \<and>
    map (ll_val l') xs = merge_right (map (ll_val l) as) (ll_val l p) (map (ll_val l) bs)"
proof (cases "bs \<noteq> [] \<and> ck_free (ll_val l (hd bs))")
  case True
  then obtain n bs' where bs: "bs = n # bs'" and n: "ck_free (ll_val l n)" by (cases bs) auto
  have rep: "ll_rep l (as @ p # n # bs')" using assms(1) bs by simp
  have "bs' \<noteq> [] \<Longrightarrow> \<not> ck_free (ll_val l (hd bs'))" using assms(3) n bs by (cases bs') (auto simp: apart_def)
  from dealloc_merge_right [OF rep assms(2) this, of p] assms(4) obtain l' where
    l': "dealloc_merge l n p = Some (p, l')" "ll_rep l' (as @ p # bs')"
      "ll_val l' = (ll_val l)(p := (ll_val l p)\<lparr>ck_size := ck_size (ll_val l p) + ck_size (ll_val l n)\<rparr>)"
    by (auto simp: bs)
  have "p \<notin> set as" "p \<notin> set bs'" "p \<noteq> 0" "n \<noteq> 0" using rep by (auto simp: ll_rep_def)
  then show ?thesis using l' assms(2) n unfolding bs
    by (intro exI [of _ p] exI [of _ l'] exI [of _ "as @ p # bs'"]) (simp add: merge_right_def)
next
  case False
  then have "\<not> (hd0 bs 0 \<noteq> 0 \<and> ck_free (ll_val l (hd0 bs 0)))" by (cases bs) auto
  moreover have "p \<noteq> 0" using assms(1) by (auto simp: ll_rep_def)
  moreover have "merge_right (map (ll_val l) as) (ll_val l p) (map (ll_val l) bs) = map (ll_val l) (as @ p # bs)"
    using False by (cases bs) (auto simp: merge_right_def)
  ultimately show ?thesis using assms(1,2) by auto
qed

lemma dealloc_merge_eq:
  assumes "ll_rep l (as @ cur # bs)" "ck_free (ll_val l cur)" "0 < ck_size (ll_val l cur)" "successively apart (map (ll_val l) bs)"
    and "sum_list (map (ck_size \<circ> ll_val l) (as @ cur # bs)) \<le> 2 ^ 26"
  shows "\<exists>f l' xs. dealloc_merge l cur cur = Some (f, l') \<and> f \<noteq> 0 \<and> ck_free (ll_val l' f) \<and> ll_rep l' xs \<and>
    map (ll_val l') xs = release (map (ll_val l) as) (ll_val l cur) (map (ll_val l) bs)"
proof -
  let ?v = "ll_val l" and ?n = "hd0 bs 0"
  have nxt: "ll_next l cur = ?n" and prev: "ll_prev l cur = last0 as 0" using assms(1) by (rule ll_next_rep, rule ll_prev_rep)
  show ?thesis
  proof (cases "as \<noteq> [] \<and> ck_free (?v (last as))")
    case False
    then have "\<not> (last0 as 0 \<noteq> 0 \<and> (ck_free (?v (last0 as 0)) \<or> ck_size (?v cur) = 0))" using assms(3) by (auto simp: last0_def)
    then have "dealloc_merge l cur cur = (if ?n \<noteq> 0 \<and> ck_free (?v ?n) then dealloc_merge l ?n cur else Some (cur, l))"
      unfolding dealloc_merge.simps [of l cur cur] Let_def nxt prev by (simp only: if_False prod.case)
    moreover have "merge_left (map ?v as) (?v cur) = (map ?v as, ?v cur)"
      using False assms(2) by (auto simp: merge_left_def last_map)
    moreover note dealloc_merge_rest [OF assms(1,2,4)] assms(5)
    ultimately show ?thesis by (simp add: release_def)
  next
    case True
    then obtain as' p where as: "as = as' @ [p]" and p: "ck_free (?v p)" by (cases as rule: rev_cases) auto
    let ?l = "remove cur (set_val p ((?v p)\<lparr>ck_size := ck_size (?v p) + ck_size (?v cur)\<rparr>) l)"
    have nz: "p \<noteq> 0" "p \<noteq> cur" "p \<notin> set as'" "p \<notin> set bs" using assms(1) as by (auto simp: ll_rep_def)
    have rep: "ll_rep ?l (as' @ p # bs)" using remove_rep [of "set_val p w l" "as' @ [p]" cur bs for w] assms(1) as by simp
    have "hd0 bs 0 \<noteq> p" using nz by (auto simp: hd0_def)
    then have run: "dealloc_merge l cur cur = (if ?n \<noteq> 0 \<and> ck_free (ll_val ?l ?n) then dealloc_merge ?l ?n p else Some (p, ?l))"
      using nz p assms(5) by (subst dealloc_merge.simps) (simp add: nxt prev Let_def as small)
    have same: "map (ll_val ?l) bs = map ?v bs" "map (ll_val ?l) as' = map ?v as'" using nz by auto
    have "successively apart (map (ll_val ?l) bs)" "sum_list (map (ck_size \<circ> ll_val ?l) (p # bs)) \<le> 2 ^ 26" 
      using assms(4,5) nz same by (auto simp: as comp_def cong: map_cong)
    from dealloc_merge_rest [OF rep _ this] p nz show ?thesis unfolding run same by (simp add: release_def merge_left_def as)
  qed
qed

section \<open>Deallocation\<close>

lemma tiles_sum: "tiles s cs e \<Longrightarrow> s + sum_list (map ck_size cs) = e"
  by (induction cs arbitrary: s) (auto simp: add.assoc [symmetric])

lemma chunks_ok_release:
  assumes "chunks_ok pg n (as @ c # bs)" "\<not> ck_free c"
  shows "chunks_ok pg n (release as c bs)"
  using assms by (cases as rule: rev_cases; cases bs)
    (auto simp: chunks_ok_def release_def merge_left_def merge_right_def tiles_append successively_append_iff successively_Cons apart_def add.assoc)

lemma deallocate_chunks:
  assumes "arena pg st xs (as @ c # bs)" "\<not> ck_free c"
  shows "\<exists>st' xs'. deallocate nd (ck_start c * kMemoryAlign) st = Some (0, st') \<and> arena pg st' xs' (release as c bs) \<and>
    mHeapSize st' = mHeapSize st"
proof -
  let ?l = "mList st" let ?v = "ll_val ?l" let ?n = "mHeapSize st div kMemoryAlign"
  have rep: "ll_rep ?l xs" and cs: "map ?v xs = as @ c # bs" and ok: "chunks_ok pg ?n (as @ c # bs)"
    and heap: "0 < mHeapSize st" "mHeapSize st \<le> 2 ^ 31" using assms(1) by (auto simp: arena_def)
  from cs obtain ys x zs where xs: "xs = ys @ x # zs" and v: "map ?v ys = as" "?v x = c" "map ?v zs = bs"
    by (auto simp: map_eq_append_conv map_eq_Cons_conv)
  have x: "x \<noteq> 0" "x \<notin> set ys" "x \<notin> set zs" using rep xs by (auto simp: ll_rep_def)
  have t: "tiles 0 (as @ c # bs) ?n" using ok by (simp add: chunks_ok_def)
  have found: "dealloc_find (ck_start c) ?l (mFirst ?l) = Some x"
    using dealloc_find_eq [of ?l "[]" xs] rep find_in_tiles [of 0 ?v ys x zs ?n] t v xs by (simp add: ll_rep_def)
  define l where "l = set_val x (c\<lparr>ck_free := True\<rparr>) ?l"
  have same: "map (ll_val l) ys = as" "map (ll_val l) zs = bs" "ll_val l x = c\<lparr>ck_free := True\<rparr>" using x v by (auto simp: l_def)
  have sum: "sum_list (map (ck_size \<circ> ll_val l) (ys @ x # zs)) \<le> 2 ^ 26"
    using tiles_sum [OF t] same heap by (simp add: map_map [symmetric] del: map_map)
  have "0 < ck_size c" using tiles_in [OF t, of c] by simp
  moreover have "successively apart bs" using ok by (auto simp: chunks_ok_def successively_append_iff successively_Cons)
  moreover have "ll_rep l (ys @ x # zs)" using rep xs by (simp add: l_def)
  ultimately obtain f l' xs' where "dealloc_merge l x x = Some (f, l')" "f \<noteq> 0" "ck_free (ll_val l' f)"
    and l': "ll_rep l' xs'" "map (ll_val l') xs' = release as (c\<lparr>ck_free := True\<rparr>) bs"
    using dealloc_merge_eq [of l ys x zs] sum unfolding same by auto
  with found have run: "deallocate nd (ck_start c * kMemoryAlign) st = Some (0, st\<lparr>mList := l'\<rparr>)"
    using heap x v assms(2) by (simp add: deallocate_def dealloc_def l_def)
  have "release as (c\<lparr>ck_free := True\<rparr>) bs = release as c bs" by (simp add: release_def merge_left_def)
  then have "arena pg (st\<lparr>mList := l'\<rparr>) xs' (release as c bs)"
    using l' heap chunks_ok_release [OF ok assms(2)] by (simp add: arena_def)
  with run show ?thesis by auto
qed

lemma deallocate_missing:
  assumes "arena pg st xs cs" "\<forall>c \<in> set cs. ck_start c \<noteq> offset div kMemoryAlign"
  shows "deallocate nd offset st = Some (- ENOENT, st)"
proof -
  have "find (\<lambda>x. ck_start (ll_val (mList st) x) = offset div kMemoryAlign) xs = None"
    using assms by (auto simp: arena_def find_None_iff)
  then have "dealloc_find (offset div kMemoryAlign) (mList st) (mFirst (mList st)) = Some 0"
    using dealloc_find_eq [of "mList st" "[]" xs] assms(1) by (simp add: arena_def ll_rep_def)
  then show ?thesis using assms(1) by (simp add: arena_def deallocate_def dealloc_def)
qed

section \<open>The heap\<close>

lemma and_high_bits:
  fixes x :: nat
  assumes "x < 2 ^ 32" "k \<le> 32"
  shows "x AND (2 ^ 32 - 2 ^ k) = x div 2 ^ k * 2 ^ k"
proof -
  have "2 ^ k * (2 ^ (32 - k) - 1) = (2 ^ 32 - 2 ^ k :: nat)"
    using assms(2) by (simp add: diff_mult_distrib2 flip: power_add)
  then have mask: "2 ^ 32 - 2 ^ k = push_bit k (mask (32 - k) :: nat)"
    by (simp add: push_bit_eq_mult mask_eq_exp_minus_1 mult.commute)
  have "x AND push_bit k (mask (32 - k)) = push_bit k (take_bit (32 - k) (drop_bit k x))"
    by (rule bit_eqI) (auto simp: bit_simps)
  also have "take_bit (32 - k) (drop_bit k x) = x div 2 ^ k"
  proof -
    have "x div 2 ^ k < 2 ^ (32 - k)" using assms by (simp add: less_mult_imp_div_less flip: power_add)
    then show ?thesis by (simp add: drop_bit_eq_div take_bit_nat_eq_self)
  qed
  finally show ?thesis unfolding mask by (simp add: push_bit_eq_mult)
qed

text \<open>The heap has whole pages, at least as many as asked for.\<close>

definition page_round :: "nat \<Rightarrow> nat \<Rightarrow> nat" where
  "page_round pg n = (n + pg - 1) div pg * pg"

lemma page_round_bounds: "0 < pg \<Longrightarrow> n \<le> page_round pg n \<and> page_round pg n \<le> n + pg - 1"
proof -
  assume "0 < pg"
  moreover have "page_round pg n + (n + pg - 1) mod pg = n + pg - 1" unfolding page_round_def by (rule div_mult_mod_eq)
  ultimately show ?thesis using mod_less_divisor [of pg "n + pg - 1"] by linarith
qed

lemma setSize_arena:
  assumes "page_ok pg" "mHeapSize st = 0" "ll_rep (mList st) []" "node \<noteq> 0" "0 < n" "n + pg \<le> 2 ^ 31"
  shows "\<exists>st'. setSize pg node n st = (int n, st') \<and> mHeapSize st' = page_round pg n \<and>
    arena pg st' [node] [\<lparr>ck_start = 0, ck_size = page_round pg n div kMemoryAlign, ck_free = True\<rparr>]"
proof -
  from assms(1) obtain k where k: "pg = 2 ^ k" "5 \<le> k" "k \<le> 20" by (auto simp: page_ok_def)
  have pg: "0 < pg" "kMemoryAlign dvd pg"
    using k le_imp_power_dvd [of 5 k "2 :: nat"] by auto
  have heap: "size_t (n + pg - 1) AND (2 ^ 32 - pg) = page_round pg n"
    using and_high_bits [of "n + pg - 1" k] assms(6) k by (simp add: page_round_def size_t_def)
  have "n \<le> page_round pg n" "page_round pg n \<le> 2 ^ 31" using page_round_bounds [OF pg(1), of n] assms(6) by auto
  moreover have "0 < page_round pg n div kMemoryAlign"
  proof -
    from pg(2) obtain q where q: "page_round pg n = kMemoryAlign * q" by (auto simp: page_round_def dvd_def)
    then have "0 < q" using \<open>n \<le> page_round pg n\<close> assms(5) by (cases q) auto
    with q show ?thesis by simp
  qed
  moreover have "ssize_t n = int n" using assms(6) pg by (simp add: ssize_t_def)
  moreover have "ll_rep (insertHead node (set_val node w (mList st))) [node]" for w
    using insertHead_rep [of "set_val node w (mList st)" "[]" node] assms(3,4) by simp
  ultimately show ?thesis using assms(2,5) unfolding setSize_def Let_def heap
    by (simp add: arena_def chunks_ok_def new_chunk_def bits28_def)
qed

section \<open>The contract\<close>

text \<open>
  What a client of an allocator relies on. The state shows the blocks in use, each with its offset and
  its length; a request may fail without an effect, and a block in use can be given back.
\<close>

definition apart_from :: "(nat \<times> nat) set \<Rightarrow> nat \<Rightarrow> nat \<Rightarrow> bool" where
  "apart_from U p k = (\<forall>x \<in> U. p + k \<le> fst x \<or> fst x + snd x \<le> p)"

definition disjoint_blocks :: "(nat \<times> nat) set \<Rightarrow> bool" where
  "disjoint_blocks U = (\<forall>x \<in> U. \<forall>y \<in> U. 0 < snd x \<and> (x = y \<or> fst x + snd x \<le> fst y \<or> fst y + snd y \<le> fst x))"

datatype 'q request = Acquire 'q | Give_back nat

text \<open>A client makes legal requests only, and gives back only what it has.\<close>

fun serve :: "('q \<Rightarrow> 's \<Rightarrow> (int \<times> 's) option) \<Rightarrow> (nat \<Rightarrow> 's \<Rightarrow> (int \<times> 's) option) \<Rightarrow> ('q \<Rightarrow> 's \<Rightarrow> bool) \<Rightarrow> ('s \<Rightarrow> (nat \<times> nat) set) \<Rightarrow>
    'q request list \<Rightarrow> 's \<Rightarrow> 's option" where
  "serve acquire give legal used [] s = Some s"
| "serve acquire give legal used (Acquire q # rs) s =
     (if legal q s then do { (_, s) \<leftarrow> acquire q s; serve acquire give legal used rs s }
      else serve acquire give legal used rs s)"
| "serve acquire give legal used (Give_back p # rs) s =
     (if p \<in> fst ` used s then do { (_, s) \<leftarrow> give p s; serve acquire give legal used rs s }
      else serve acquire give legal used rs s)"

locale block_allocator =
  fixes acquire :: "'q \<Rightarrow> 's \<Rightarrow> (int \<times> 's) option" and give :: "nat \<Rightarrow> 's \<Rightarrow> (int \<times> 's) option"
    and legal :: "'q \<Rightarrow> 's \<Rightarrow> bool" and used :: "'s \<Rightarrow> (nat \<times> nat) set" and ok :: "'s \<Rightarrow> bool" and demand :: "'q \<Rightarrow> nat"
  assumes acquire_law: "ok s \<Longrightarrow> legal q s \<Longrightarrow> \<exists>r s'. acquire q s = Some (r, s') \<and> ok s' \<and>
      (r < 0 \<and> used s' = used s \<or>
       (\<exists>k. 0 \<le> r \<and> 0 < k \<and> demand q \<le> k \<and> used s' = insert (nat r, k) (used s) \<and> apart_from (used s) (nat r) k))"
    and give_law: "ok s \<Longrightarrow> (p, k) \<in> used s \<Longrightarrow> \<exists>s'. give p s = Some (0, s') \<and> ok s' \<and> used s' = used s - {(p, k)}"
begin

lemma disjoint_insert: "disjoint_blocks U \<Longrightarrow> 0 < k \<Longrightarrow> apart_from U p k \<Longrightarrow> disjoint_blocks (insert (p, k) U)"
  unfolding disjoint_blocks_def apart_from_def by auto

lemma disjoint_subset: "disjoint_blocks U \<Longrightarrow> V \<subseteq> U \<Longrightarrow> disjoint_blocks V"
  unfolding disjoint_blocks_def by blast

lemma serve_disjoint:
  "ok s \<Longrightarrow> disjoint_blocks (used s) \<Longrightarrow>
   \<exists>s'. serve acquire give legal used rs s = Some s' \<and> ok s' \<and> disjoint_blocks (used s')"
proof (induction rs arbitrary: s)
  case (Cons r rs)
  show ?case
  proof (cases r)
    case (Acquire q)
    show ?thesis
    proof (cases "legal q s")
      case True
      from acquire_law [OF Cons.prems(1) True] obtain x s' where "acquire q s = Some (x, s')" "ok s'" "disjoint_blocks (used s')"
        using Cons.prems(2) disjoint_insert by metis
      then show ?thesis using Cons.IH True Acquire by simp
    qed (use Cons Acquire in simp)
  next
    case (Give_back p)
    show ?thesis
    proof (cases "p \<in> fst ` used s")
      case True
      then obtain k where "(p, k) \<in> used s" by auto
      from give_law [OF Cons.prems(1) this] obtain s' where "give p s = Some (0, s')" "ok s'" "disjoint_blocks (used s')"
        using Cons.prems(2) disjoint_subset [of "used s"] by auto
      then show ?thesis using Cons.IH True Give_back by simp
    qed (use Cons Give_back in simp)
  qed
qed simp

end

section \<open>The allocator keeps the contract\<close>

definition block_of :: "chunk_t \<Rightarrow> nat \<times> nat" where
  "block_of c = (ck_start c * kMemoryAlign, ck_size c * kMemoryAlign)"

definition used_chunks :: "chunk_t list \<Rightarrow> chunk_t set" where
  "used_chunks cs = {c \<in> set cs. \<not> ck_free c}"

definition blocks_in_use :: "allocator \<Rightarrow> (nat \<times> nat) set" where
  "blocks_in_use st = {u. \<exists>xs. ll_rep (mList st) xs \<and> u \<in> block_of ` used_chunks (map (ll_val (mList st)) xs)}"

definition allocator_ok :: "nat \<Rightarrow> allocator \<Rightarrow> bool" where
  "allocator_ok pg st = (\<exists>xs cs. arena pg st xs cs)"

definition legal_request :: "nat \<times> nat \<times> nat \<Rightarrow> allocator \<Rightarrow> bool" where
  "legal_request q st = (case q of (a, b, n) \<Rightarrow> request_ok n \<and> (\<exists>xs. ll_rep (mList st) xs \<and> fresh a b xs))"

lemma blocks_in_use_arena: "arena pg st xs cs \<Longrightarrow> blocks_in_use st = block_of ` used_chunks cs"
  using ll_rep_unique [of "mList st" xs] by (auto simp: blocks_in_use_def arena_def)

lemma used_chunks_append [simp]: "used_chunks (xs @ ys) = used_chunks xs \<union> used_chunks ys"
  by (auto simp: used_chunks_def)

lemma used_chunks_Cons [simp]: "used_chunks (c # cs) = (if ck_free c then used_chunks cs else insert c (used_chunks cs))"
  by (auto simp: used_chunks_def)

lemma used_chunks_Nil [simp]: "used_chunks [] = {}"
  by (simp add: used_chunks_def)

lemma used_carve:
  "used_chunks (carve pg sz c) = {\<lparr>ck_start = ck_start c + page_extra pg (ck_start c), ck_size = sz, ck_free = False\<rparr>}"
  by (simp add: carve_def Let_def)

lemma used_release: "used_chunks (release as c bs) = used_chunks as \<union> used_chunks bs"
  by (cases as rule: rev_cases; cases bs) (auto simp: release_def merge_left_def merge_right_def)

lemma tiles_apart:
  assumes "tiles s (as @ c # bs) e" "d \<in> set as \<union> set bs"
  shows "ck_start d + ck_size d \<le> ck_start c \<or> ck_start c + ck_size c \<le> ck_start d" "0 < ck_size d"
proof -
  show "0 < ck_size d" using tiles_in [OF assms(1), of d] assms(2) by auto
  from assms(1) have "tiles (ck_start c + ck_size c) bs e" by (auto simp: tiles_append)
  with tiles_in [of _ bs e d] tiles_disjoint [OF assms(1), of d] assms(2)
  show "ck_start d + ck_size d \<le> ck_start c \<or> ck_start c + ck_size c \<le> ck_start d" by auto
qed

lemma arena_tiles: "arena pg st xs cs \<Longrightarrow> tiles 0 cs (mHeapSize st div kMemoryAlign)"
  by (auto simp: arena_def chunks_ok_def)

lemma units_demand: "n \<le> units n * kMemoryAlign"
  by (simp add: units_def)

lemma allocate_law:
  assumes "page_ok pg" "allocator_ok pg st" "legal_request (a, b, n) st"
  shows "\<exists>r st'. allocate pg a b n st = Some (r, st') \<and> allocator_ok pg st' \<and>
    (r < 0 \<and> blocks_in_use st' = blocks_in_use st \<or>
     (\<exists>k. 0 \<le> r \<and> 0 < k \<and> n \<le> k \<and> blocks_in_use st' = insert (nat r, k) (blocks_in_use st) \<and> apart_from (blocks_in_use st) (nat r) k))"
proof -
  from assms(2) obtain xs cs where ar: "arena pg st xs cs" by (auto simp: allocator_ok_def)
  from assms(3) obtain ys where ys: "ll_rep (mList st) ys" "fresh a b ys" and n: "request_ok n" by (auto simp: legal_request_def)
  have "ys = xs" using ys(1) ar by (auto simp: arena_def intro: ll_rep_unique)
  with ys(2) have "fresh a b xs" by simp
  note cases = allocate_chunks [OF assms(1) ar this n]
  show ?thesis
  proof (cases "\<exists>c \<in> set cs. room pg n c")
    case True
    from cases [unfolded if_P [OF True]] obtain as c bs st' xs' where cs: "cs = as @ c # bs" and room: "room pg n c"
      and run: "allocate pg a b n st = Some (int ((ck_start c + page_extra pg (ck_start c)) * kMemoryAlign), st')"
      and ar': "arena pg st' xs' (as @ carve pg (units n) c @ bs)" by blast
    let ?p = "(ck_start c + page_extra pg (ck_start c)) * kMemoryAlign" and ?k = "units n * kMemoryAlign"
    have free: "ck_free c" "units n + page_extra pg (ck_start c) \<le> ck_size c" using room by (auto simp: room_def)
    have t: "tiles 0 (as @ c # bs) (mHeapSize st div kMemoryAlign)" using arena_tiles [OF ar] unfolding cs .
    have use: "blocks_in_use st = block_of ` (used_chunks as \<union> used_chunks bs)" using blocks_in_use_arena [OF ar] free by (simp add: cs)
    have new: "blocks_in_use st' = insert (?p, ?k) (blocks_in_use st)"
      using blocks_in_use_arena [OF ar'] by (simp add: use used_carve block_of_def)
    have far: "apart_from (blocks_in_use st) ?p ?k"
      using tiles_apart(1) [OF t] free(2) by (fastforce simp: use apart_from_def block_of_def used_chunks_def)
    have "0 < ?k" "n \<le> ?k" using units_demand [of n] units_bound [OF n] by auto
    with new far have "\<exists>k. 0 \<le> int ?p \<and> 0 < k \<and> n \<le> k \<and> blocks_in_use st' = insert (nat (int ?p), k) (blocks_in_use st) \<and>
        apart_from (blocks_in_use st) (nat (int ?p)) k" unfolding nat_int using of_nat_0_le_iff by blast
    moreover have "allocator_ok pg st'" using ar' by (auto simp: allocator_ok_def)
    ultimately show ?thesis using run by blast
  qed (use cases assms(2) in \<open>auto simp: ENOMEM_def\<close>)
qed

lemma deallocate_law:
  assumes "allocator_ok pg st" "(p, k) \<in> blocks_in_use st"
  shows "\<exists>st'. deallocate nd p st = Some (0, st') \<and> allocator_ok pg st' \<and> blocks_in_use st' = blocks_in_use st - {(p, k)}"
proof -
  from assms(1) obtain xs cs where ar: "arena pg st xs cs" by (auto simp: allocator_ok_def)
  with assms(2) blocks_in_use_arena obtain c where c: "c \<in> set cs" "\<not> ck_free c" "(p, k) = block_of c" by (auto simp: used_chunks_def)
  from c(1) obtain as bs where cs: "cs = as @ c # bs" by (auto simp: in_set_conv_decomp)
  from deallocate_chunks [OF ar [unfolded cs] c(2), of nd] obtain st' xs' where
    run: "deallocate nd (ck_start c * kMemoryAlign) st = Some (0, st')" and ar': "arena pg st' xs' (release as c bs)" by blast
  have t: "tiles 0 (as @ c # bs) (mHeapSize st div kMemoryAlign)" using arena_tiles [OF ar] unfolding cs .
  have ne: "block_of c \<noteq> block_of d" if "d \<in> set as \<union> set bs" for d
    using tiles_apart [OF t that] tiles_in [OF t, of c] by (auto simp: block_of_def)
  have "block_of c \<notin> block_of ` (used_chunks as \<union> used_chunks bs)"
    by (rule notI, erule imageE) (use ne in \<open>auto simp: used_chunks_def\<close>)
  moreover have "blocks_in_use st = insert (block_of c) (block_of ` (used_chunks as \<union> used_chunks bs))"
    using blocks_in_use_arena [OF ar] c(2) by (simp add: cs)
  ultimately have "blocks_in_use st' = blocks_in_use st - {block_of c}"
    using blocks_in_use_arena [OF ar'] by (simp add: used_release)
  with run ar' c(3) show ?thesis by (auto simp: block_of_def allocator_ok_def)
qed

abbreviation (input) allocator_acquire :: "nat \<Rightarrow> nat \<times> nat \<times> nat \<Rightarrow> allocator \<Rightarrow> (int \<times> allocator) option" where
  "allocator_acquire pg \<equiv> \<lambda>(a, b, n). allocate pg a b n"

lemma allocator_contract:
  assumes "page_ok pg"
  shows "block_allocator (allocator_acquire pg) (deallocate nd) legal_request blocks_in_use (allocator_ok pg) (\<lambda>(a, b, n). n)"
proof
  fix s q
  assume "allocator_ok pg s" "legal_request q s"
  then show "\<exists>r s'. allocator_acquire pg q s = Some (r, s') \<and> allocator_ok pg s' \<and>
      (r < 0 \<and> blocks_in_use s' = blocks_in_use s \<or>
       (\<exists>k. 0 \<le> r \<and> 0 < k \<and> (case q of (a, b, n) \<Rightarrow> n) \<le> k \<and> blocks_in_use s' = insert (nat r, k) (blocks_in_use s) \<and>
         apart_from (blocks_in_use s) (nat r) k))"
    using allocate_law [OF assms] by (cases q) simp
next
  fix s p k
  assume "allocator_ok pg s" "(p, k) \<in> blocks_in_use s"
  then show "\<exists>s'. deallocate nd p s = Some (0, s') \<and> allocator_ok pg s' \<and> blocks_in_use s' = blocks_in_use s - {(p, k)}"
    by (rule deallocate_law)
qed

text \<open>With the pages of the machine.\<close>

lemma page_ok_4096: "page_ok 4096"
  unfolding page_ok_def by (rule exI [of _ 12]) simp

interpretation pmem: block_allocator "allocator_acquire 4096" "deallocate False" legal_request blocks_in_use "allocator_ok 4096" "\<lambda>(a, b, n). n"
  by (rule allocator_contract [OF page_ok_4096])

section \<open>Freeing what was just allocated\<close>

lemma release_carve:
  assumes "successively apart (as @ c # bs)" "ck_free c" "sz + page_extra pg (ck_start c) \<le> ck_size c" "carve pg sz c = E @ d # T" "\<not> ck_free d"
  shows "release (as @ E) d (T @ bs) = as @ c # bs"
proof -
  let ?e = "page_extra pg (ck_start c)"
  have parts: "E = (if ?e \<noteq> 0 then [\<lparr>ck_start = ck_start c, ck_size = ?e, ck_free = True\<rparr>] else [])"
    "d = \<lparr>ck_start = ck_start c + ?e, ck_size = sz, ck_free = False\<rparr>"
    "T = (if sz + ?e < ck_size c then [\<lparr>ck_start = ck_start c + ?e + sz, ck_size = ck_size c - (sz + ?e), ck_free = True\<rparr>] else [])"
    using assms(4,5) by (auto simp: carve_def Let_def Cons_eq_append_conv append_eq_Cons_conv split: if_splits)
  have as: "as = [] \<or> \<not> ck_free (last as)" and bs: "bs = [] \<or> \<not> ck_free (hd bs)"
    using assms(1,2) by (auto simp: successively_append_iff successively_Cons apart_def)
  show ?thesis using assms(2,3) as bs unfolding parts
    by (cases c) (auto simp: release_def merge_left_def merge_right_def)
qed

section \<open>Properties\<close>

lemma destroy_ends: "ll_rep (mList st) xs \<Longrightarrow> \<exists>st'. allocator_destroy st = Some st' \<and> isEmpty (mList st')"
proof (induction xs arbitrary: st)
  case Nil
  then show ?case using isEmpty_rep [of "mList st" "[]"] by (simp add: allocator_destroy.simps)
next
  case (Cons x xs)
  have "mFirst (mList st) = x" using Cons.prems by (simp add: ll_rep_def)
  moreover have "ll_rep (remove x (mList st)) xs" using remove_rep [of "mList st" "[]" x xs] Cons.prems by simp
  ultimately show ?case using Cons.IH [of "st\<lparr>mList := remove x (mList st)\<rparr>"] isEmpty_rep [OF Cons.prems]
    by (simp add: allocator_destroy.simps [of st])
qed

text \<open>An allocator as its first constructor leaves it, and one of two pages.\<close>

definition new_allocator :: allocator where
  "new_allocator = \<lparr>mList = \<lparr>mFirst = 0, mLast = 0, ll_prev = \<lambda>_. 0, ll_next = \<lambda>_. 0, ll_val = \<lambda>_. new_chunk 0 0\<rparr>, mHeapSize = 0\<rparr>"

definition two_pages :: allocator where
  "two_pages = snd (setSize 4096 1 8192 new_allocator)"

lemma new_allocator_empty: "mHeapSize new_allocator = 0" "ll_rep (mList new_allocator) []"
  by (simp_all add: new_allocator_def ll_rep_def)

lemma two_pages_arena: "arena 4096 two_pages [1] [\<lparr>ck_start = 0, ck_size = 256, ck_free = True\<rparr>]"
  using setSize_arena [OF page_ok_4096 new_allocator_empty, of 1 8192] by (auto simp: two_pages_def page_round_def)

text \<open>
  C5. Every loop of the allocator ends, and no fatal check fails: from any heap of at most two
  gigabytes, every sequence of allocations and of deallocations of blocks in use is served, with the
  chunks tiling the heap, the free ones merged, the blocks in use at pages and pairwise disjoint; and
  the destructor then empties the list.
\<close>

theorem allocator_serves:
  assumes "page_ok pg" "mHeapSize st = 0" "ll_rep (mList st) []" "node \<noteq> 0" "0 < n" "n + pg \<le> 2 ^ 31"
  shows "\<exists>st'. serve (allocator_acquire pg) (deallocate nd) legal_request blocks_in_use rs (snd (setSize pg node n st)) = Some st' \<and>
    allocator_ok pg st' \<and> disjoint_blocks (blocks_in_use st') \<and>
    (\<exists>st''. allocator_destroy st' = Some st'' \<and> isEmpty (mList st''))"
proof -
  let ?s = "snd (setSize pg node n st)"
  from setSize_arena [OF assms] have ar: "arena pg ?s [node] [\<lparr>ck_start = 0, ck_size = page_round pg n div kMemoryAlign, ck_free = True\<rparr>]" by auto
  then have "allocator_ok pg ?s" "disjoint_blocks (blocks_in_use ?s)"
    using blocks_in_use_arena [OF ar] by (auto simp: allocator_ok_def disjoint_blocks_def)
  from block_allocator.serve_disjoint [OF allocator_contract [OF assms(1)] this, of nd rs] obtain st' where
    "serve (allocator_acquire pg) (deallocate nd) legal_request blocks_in_use rs ?s = Some st'"
    "allocator_ok pg st'" "disjoint_blocks (blocks_in_use st')" by blast
  moreover from this(2) obtain xs where "ll_rep (mList st') xs" by (auto simp: allocator_ok_def arena_def)
  ultimately show ?thesis using destroy_ends by blast
qed

theorem allocator_serves_witness:
  "\<exists>st'. serve (allocator_acquire 4096) (deallocate False) legal_request blocks_in_use
      [Acquire (2, 3, 100), Acquire (4, 5, 4096), Give_back 0] two_pages = Some st' \<and> disjoint_blocks (blocks_in_use st')"
proof -
  have "(1 :: nat) \<noteq> 0" "0 < (8192 :: nat)" "8192 + 4096 \<le> (2 ^ 31 :: nat)" by simp_all
  from allocator_serves [OF page_ok_4096 new_allocator_empty this, of False] show ?thesis unfolding two_pages_def by blast
qed

text \<open>
  C6. An allocation that can be served is served from a smallest free chunk that has room for the
  units and for the way to the next page: the block starts at a page, the chunk is cut into the
  part before it, the block and the rest, and all other chunks stay. Otherwise the result is
  \<open>-ENOMEM\<close> and nothing changes.
\<close>

theorem allocate_best_fit:
  assumes "page_ok pg" "arena pg st xs cs" "fresh a b xs" "request_ok n"
  shows "if \<exists>c \<in> set cs. room pg n c then
      \<exists>as c bs st' xs'. cs = as @ c # bs \<and> room pg n c \<and> (\<forall>d \<in> set cs. room pg n d \<longrightarrow> ck_size c \<le> ck_size d) \<and>
        allocate pg a b n st = Some (int ((ck_start c + page_extra pg (ck_start c)) * kMemoryAlign), st') \<and>
        ((ck_start c + page_extra pg (ck_start c)) * kMemoryAlign) mod pg = 0 \<and>
        arena pg st' xs' (as @ carve pg (units n) c @ bs)
    else allocate pg a b n st = Some (- ENOMEM, st)"
proof -
  have page: "((ck_start c + page_extra pg (ck_start c)) * kMemoryAlign) mod pg = 0" if "c \<in> set cs" for c
  proof -
    have "ck_start c < 2 ^ 32" using arena_in [OF assms(2) that] by simp
    from page_extra_facts(2) [OF assms(1) this] have "page_units pg dvd ck_start c + page_extra pg (ck_start c)" by (simp only: mod_eq_0_iff_dvd)
    then have "page_units pg * kMemoryAlign dvd (ck_start c + page_extra pg (ck_start c)) * kMemoryAlign" by (rule mult_dvd_mono) simp
    moreover have "page_units pg * kMemoryAlign = pg" using page_units_power [OF assms(1)] by auto
    ultimately show ?thesis by (simp only: mod_eq_0_iff_dvd)
  qed
  show ?thesis
  proof (cases "\<exists>c \<in> set cs. room pg n c")
    case True
    from allocate_chunks [OF assms, unfolded if_P [OF True]] obtain as c bs st' xs' where
      cs: "cs = as @ c # bs" "room pg n c" "\<forall>d \<in> set cs. room pg n d \<longrightarrow> ck_size c \<le> ck_size d"
      "allocate pg a b n st = Some (int ((ck_start c + page_extra pg (ck_start c)) * kMemoryAlign), st')"
      "arena pg st' xs' (as @ carve pg (units n) c @ bs)" by blast
    moreover have "((ck_start c + page_extra pg (ck_start c)) * kMemoryAlign) mod pg = 0" by (rule page) (simp add: cs)
    ultimately show ?thesis unfolding if_P [OF True] by (intro exI conjI)
  qed (use allocate_chunks [OF assms] in simp)
qed

theorem allocate_best_fit_witness:
  "\<exists>st' xs'. allocate 4096 2 3 100 two_pages = Some (0, st') \<and>
     arena 4096 st' xs' [\<lparr>ck_start = 0, ck_size = 4, ck_free = False\<rparr>, \<lparr>ck_start = 4, ck_size = 252, ck_free = True\<rparr>]"
  using allocate_best_fit [OF page_ok_4096 two_pages_arena, of 2 3 100]
  by (auto simp: fresh_def request_ok_def room_def units_def carve_def page_extra_def size_t_def Cons_eq_append_conv split: if_splits)

text \<open>
  C7. Deallocating a block that was just allocated gives back the chunks as they were before, with
  the same starts, sizes and states.
\<close>

theorem allocate_deallocate:
  assumes "page_ok pg" "arena pg st xs cs" "fresh a b xs" "request_ok n" "allocate pg a b n st = Some (r, st')" "0 \<le> r"
  shows "\<exists>st'' xs''. deallocate nd (nat r) st' = Some (0, st'') \<and> arena pg st'' xs'' cs"
proof -
  have "\<exists>c \<in> set cs. room pg n c"
    using allocate_chunks [OF assms(1-4)] assms(5,6) by (auto simp: ENOMEM_def split: if_splits)
  from allocate_chunks [OF assms(1-4), unfolded if_P [OF this]] assms(5) obtain as c bs xs' where cs: "cs = as @ c # bs" and room: "room pg n c"
    and r: "r = int ((ck_start c + page_extra pg (ck_start c)) * kMemoryAlign)" and ar: "arena pg st' xs' (as @ carve pg (units n) c @ bs)"
    by auto
  let ?d = "\<lparr>ck_start = ck_start c + page_extra pg (ck_start c), ck_size = units n, ck_free = False\<rparr>"
  obtain E T where carve: "carve pg (units n) c = E @ ?d # T" by (auto simp: carve_def Let_def)
  have "arena pg st' xs' ((as @ E) @ ?d # (T @ bs))" using ar by (simp add: carve)
  from deallocate_chunks [OF this, of nd] obtain st'' xs'' where
    "deallocate nd (nat r) st' = Some (0, st'')" "arena pg st'' xs'' (release (as @ E) ?d (T @ bs))"
    by (auto simp: r nat_mult_distrib nat_add_distrib)
  moreover have "release (as @ E) ?d (T @ bs) = cs"
    unfolding cs by (rule release_carve [OF _ _ _ carve]) (use room assms(2) cs in \<open>auto simp: room_def arena_def chunks_ok_def\<close>)
  ultimately show ?thesis by auto
qed

theorem allocate_deallocate_witness:
  "\<exists>st' st'' xs''. allocate 4096 2 3 100 two_pages = Some (0, st') \<and> deallocate False (nat 0) st' = Some (0, st'') \<and>
     arena 4096 st'' xs'' [\<lparr>ck_start = 0, ck_size = 256, ck_free = True\<rparr>]"
proof -
  have f: "fresh 2 3 [1]" "request_ok 100" by (simp_all add: fresh_def request_ok_def)
  from allocate_chunks [OF page_ok_4096 two_pages_arena f] obtain st' where run: "allocate 4096 2 3 100 two_pages = Some (0, st')"
    by (auto simp: room_def units_def page_extra_def size_t_def Cons_eq_append_conv split: if_splits)
  from allocate_deallocate [OF page_ok_4096 two_pages_arena f run, of False] run show ?thesis by auto
qed

end
