(* ===== verification/Device_Calls.thy ===== *)
theory Device_Calls
  imports Prelude "HOL-Library.State_Monad"
begin

text \<open>
  What the small hardware modules under \<^verbatim>\<open>src/hardware/mx5x\<close> have in common: a device file, opened
  once, on which \<open>ioctl\<close> and \<open>poll\<close> are called. The kernel is a function of the calls made so far; the
  state is the handle and the calls. A buffer for \<open>ioctl\<close> has the value \<open>None\<close> where nothing was stored.
\<close>

section \<open>Calls\<close>

datatype dev_call =
    Dev_open string
  | Dev_ioctl int string "int option list"
  | Dev_poll int int
  | Dev_close int

record dev_reply =
  rp_ret :: int
  rp_out :: "int list"
  rp_revents :: u16

type_synonym kernel = "dev_call list \<Rightarrow> dev_call \<Rightarrow> dev_reply"

record dev =
  file_handle :: int
  dev_log :: "dev_call list"

definition logged :: "dev_call \<Rightarrow> 'a dev_scheme \<Rightarrow> 'a dev_scheme" where
  "logged c s = s\<lparr>dev_log := dev_log s @ [c]\<rparr>"

definition sys :: "kernel \<Rightarrow> dev_call \<Rightarrow> ('a dev_scheme, dev_reply) state" where
  "sys K c = State (\<lambda>s. (K (dev_log s) c, logged c s))"

definition ioctl :: "kernel \<Rightarrow> int \<Rightarrow> string \<Rightarrow> int option list \<Rightarrow> ('a dev_scheme, int \<times> int option list) state" where
  "ioctl K fd request buf =
     do {
       r \<leftarrow> sys K (Dev_ioctl fd request buf);
       State_Monad.return (rp_ret r, map Some (take (length buf) (rp_out r)) @ drop (length (rp_out r)) buf)
     }"

definition handle :: "('a dev_scheme, int) state" where
  "handle = State (\<lambda>s. (file_handle s, s))"

text \<open>Opening the device file of a module.\<close>

definition dev_open :: "kernel \<Rightarrow> string \<Rightarrow> ('a dev_scheme, int) state" where
  "dev_open K path =
     do {
       r \<leftarrow> sys K (Dev_open path);
       State (\<lambda>s. ((), s\<lparr>file_handle := rp_ret r\<rparr>));
       State_Monad.return (if rp_ret r = -1 then -1 else 0)
     }"

text \<open>A call with an argument, and a call whose result is stored for the caller only if it succeeds.\<close>

definition command :: "kernel \<Rightarrow> string \<Rightarrow> int option list \<Rightarrow> ('a dev_scheme, int) state" where
  "command K request buf = do { fd \<leftarrow> handle; (ret, _) \<leftarrow> ioctl K fd request buf; State_Monad.return ret }"

definition query :: "kernel \<Rightarrow> string \<Rightarrow> ('a dev_scheme, int \<times> int option option) state" where
  "query K request =
     do {
       fd \<leftarrow> handle;
       (ret, buf) \<leftarrow> ioctl K fd request [None];
       State_Monad.return (if ret < 0 then (ret, None) else (0, Some (hd buf)))
     }"

lemma run_sys [simp]: "run_state (sys K c) s = (K (dev_log s) c, logged c s)"
  by (simp add: sys_def)

lemma run_handle [simp]: "run_state handle s = (file_handle s, s)"
  by (simp add: handle_def)

lemma logged_fields [simp]: "file_handle (logged c s) = file_handle s" "dev_log (logged c s) = dev_log s @ [c]"
  by (simp_all add: logged_def)

section \<open>Polling\<close>

definition POLLIN :: u16 where "POLLIN = 1"
definition POLLERR :: u16 where "POLLERR = 8"

datatype poll_result = Poll_failed int | Poll_timeout | Poll_error int | Poll_ready int

text \<open>
  The loop around \<open>poll\<close>. A module either goes on at a timeout or leaves the loop; all go on if the
  device reports neither an error nor data.
\<close>

partial_function (option) poll_wait :: "kernel \<Rightarrow> int \<Rightarrow> int \<Rightarrow> bool \<Rightarrow> 'a dev_scheme \<Rightarrow> (poll_result \<times> 'a dev_scheme) option" where
  "poll_wait K fd msecs again s =
     (let r = K (dev_log s) (Dev_poll fd msecs); s' = logged (Dev_poll fd msecs) s in
      if rp_ret r < 0 then Some (Poll_failed (rp_ret r), s')
      else if rp_ret r = 0 then (if again then poll_wait K fd msecs again s' else Some (Poll_timeout, s'))
      else if rp_revents r AND POLLERR \<noteq> 0 then Some (Poll_error (rp_ret r), s')
      else if rp_revents r AND POLLIN \<noteq> 0 then Some (Poll_ready (rp_ret r), s')
      else poll_wait K fd msecs again s')"

definition undecided :: "bool \<Rightarrow> dev_reply \<Rightarrow> bool" where
  "undecided again r = (rp_ret r \<ge> 0 \<and> (if rp_ret r = 0 then again else rp_revents r AND POLLERR = 0 \<and> rp_revents r AND POLLIN = 0))"

lemma undecided_cases:
  "undecided True r \<longleftrightarrow> rp_ret r = 0 \<or> 0 < rp_ret r \<and> rp_revents r AND POLLERR = 0 \<and> rp_revents r AND POLLIN = 0"
  "undecided False r \<longleftrightarrow> 0 < rp_ret r \<and> rp_revents r AND POLLERR = 0 \<and> rp_revents r AND POLLIN = 0"
  by (auto simp: undecided_def)

lemma poll_wait_step:
  "poll_wait K fd msecs again s =
     (let r = K (dev_log s) (Dev_poll fd msecs); s' = logged (Dev_poll fd msecs) s in
      if undecided again r then poll_wait K fd msecs again s'
      else Some (if rp_ret r < 0 then Poll_failed (rp_ret r) else if rp_ret r = 0 then Poll_timeout
        else if rp_revents r AND POLLERR \<noteq> 0 then Poll_error (rp_ret r) else Poll_ready (rp_ret r), s'))"
  by (subst poll_wait.simps) (auto simp: undecided_def Let_def)

text \<open>The answer to the poll that follows \<open>n\<close> polls.\<close>

definition poll_answer :: "kernel \<Rightarrow> int \<Rightarrow> int \<Rightarrow> dev_call list \<Rightarrow> nat \<Rightarrow> dev_reply" where
  "poll_answer K fd msecs calls n = K (calls @ replicate n (Dev_poll fd msecs)) (Dev_poll fd msecs)"

lemma poll_answer_Suc: "poll_answer K fd msecs (calls @ [Dev_poll fd msecs]) n = poll_answer K fd msecs calls (Suc n)"
  by (simp add: poll_answer_def)

lemma poll_wait_ends:
  "\<not> undecided again (poll_answer K fd msecs (dev_log s) n) \<Longrightarrow> poll_wait K fd msecs again s \<noteq> None"
proof (induction n arbitrary: s)
  case 0
  then show ?case by (subst poll_wait_step) (simp add: poll_answer_def Let_def)
next
  case (Suc n)
  then have "poll_wait K fd msecs again (logged (Dev_poll fd msecs) s) \<noteq> None" by (simp add: poll_answer_Suc)
  then show ?case by (subst poll_wait_step) (simp add: Let_def)
qed

lemma poll_wait_decided:
  assumes "poll_wait K fd msecs again s = Some r"
  shows "\<exists>n. \<not> undecided again (poll_answer K fd msecs (dev_log s) n)"
proof (rule poll_wait.raw_induct [where P = "\<lambda>K fd msecs again s r. \<exists>n. \<not> undecided again (poll_answer K fd msecs (dev_log s) n)", OF _ assms])
  fix poll :: "kernel \<Rightarrow> int \<Rightarrow> int \<Rightarrow> bool \<Rightarrow> 'a dev_scheme \<Rightarrow> (poll_result \<times> 'a dev_scheme) option"
  fix K fd msecs again and s :: "'a dev_scheme" and r
  assume IH: "\<And>K fd msecs again s r. poll K fd msecs again s = Some r \<Longrightarrow> \<exists>n. \<not> undecided again (poll_answer K fd msecs (dev_log s) n)"
  assume run: "(let r = K (dev_log s) (Dev_poll fd msecs); s' = logged (Dev_poll fd msecs) s in
      if rp_ret r < 0 then Some (Poll_failed (rp_ret r), s')
      else if rp_ret r = 0 then (if again then poll K fd msecs again s' else Some (Poll_timeout, s'))
      else if rp_revents r AND POLLERR \<noteq> 0 then Some (Poll_error (rp_ret r), s')
      else if rp_revents r AND POLLIN \<noteq> 0 then Some (Poll_ready (rp_ret r), s')
      else poll K fd msecs again s') = Some r"
  show "\<exists>n. \<not> undecided again (poll_answer K fd msecs (dev_log s) n)"
  proof (cases "undecided again (K (dev_log s) (Dev_poll fd msecs))")
    case True
    with run have "poll K fd msecs again (logged (Dev_poll fd msecs) s) = Some r"
      by (auto simp: undecided_def Let_def split: if_splits)
    from IH [OF this] show ?thesis by (auto simp: poll_answer_Suc)
  next
    case False
    then have "\<not> undecided again (poll_answer K fd msecs (dev_log s) 0)" by (simp add: poll_answer_def)
    then show ?thesis ..
  qed
qed

lemma poll_wait_None_iff: "poll_wait K fd msecs again s = None \<longleftrightarrow> (\<forall>n. undecided again (poll_answer K fd msecs (dev_log s) n))"
  using poll_wait_ends poll_wait_decided by (metis option.exhaust)

text \<open>A module that goes on at a timeout does not report one.\<close>

lemma poll_wait_no_timeout:
  assumes "poll_wait K fd msecs True s = Some r"
  shows "fst r \<noteq> Poll_timeout"
proof -
  have "again \<longrightarrow> fst r \<noteq> Poll_timeout" if "poll_wait K fd msecs again s = Some r" for again
    by (rule poll_wait.raw_induct [where P = "\<lambda>K fd msecs again s r. again \<longrightarrow> fst r \<noteq> Poll_timeout", OF _ that])
      (fastforce simp: Let_def split: if_splits)
  from this [OF assms] show ?thesis by simp
qed

end
