(* ===== verification/Small_Hals.thy ===== *)
theory Small_Hals
  imports Device_Calls
begin

text \<open>
  The hardware modules for the microcontroller, the audio control, the analogue television and the
  status of the car, under \<^verbatim>\<open>src/hardware/mx5x\<close>. Every function is one call on the device of its
  module; a result in \<open>Some\<close> is stored for the caller. The interesting part is the loop of the two
  polling functions.
\<close>

section \<open>Microcontroller: libmcu\<close>

definition mcu_open :: "kernel \<Rightarrow> ('a dev_scheme, int) state" where
  "mcu_open K = dev_open K ''/dev/mcu_i2c''"

definition mcu_call :: "kernel \<Rightarrow> string \<Rightarrow> int option list \<Rightarrow> ('a dev_scheme, int \<times> int option list option) state" where
  "mcu_call K request buf =
     do {
       fd \<leftarrow> handle;
       if fd = 0 then State_Monad.return (-22, None)
       else do { (ret, buf) \<leftarrow> ioctl K fd request buf; State_Monad.return (ret, Some buf) }
     }"

definition mcu_get_version :: "kernel \<Rightarrow> ('a dev_scheme, int \<times> int option list option) state" where
  "mcu_get_version K = mcu_call K ''MCU_GET_VERSION'' [Some 0, Some 0]"

definition mcu_main_board_uniqueid :: "kernel \<Rightarrow> int option list \<Rightarrow> ('a dev_scheme, int \<times> int option list option) state" where
  "mcu_main_board_uniqueid K uniqueid_data = mcu_call K ''MAIN_BOARD_UNIQUEID'' uniqueid_data"

definition mcu_get_batch :: "kernel \<Rightarrow> ('a dev_scheme, int \<times> int option list option) state" where
  "mcu_get_batch K = mcu_call K ''MCU_BATCH'' [Some 0]"

definition mcu_get_serial :: "kernel \<Rightarrow> ('a dev_scheme, int \<times> int option list option) state" where
  "mcu_get_serial K = mcu_call K ''MCU_SERIAL'' [Some 0]"

section \<open>Audio control: libaudctl\<close>

definition audctl_open :: "kernel \<Rightarrow> ('a dev_scheme, int) state" where
  "audctl_open K = dev_open K ''/dev/uda1388_1''"

definition get_FbChnNum :: int where "get_FbChnNum = 4"
definition get_FbChnRangeMax :: "int \<Rightarrow> int" where "get_FbChnRangeMax fbchn = 9"

definition adjFbVolume :: "kernel \<Rightarrow> int \<Rightarrow> int \<Rightarrow> ('a dev_scheme, int) state" where
  "adjFbVolume K fbchn vol = command K ''UDA1388_ADJUST_FB_VOLUME'' [Some fbchn, Some vol]"

section \<open>Analogue television: libatv\<close>

definition atv_open :: "kernel \<Rightarrow> ('a dev_scheme, int) state" where
  "atv_open K = dev_open K ''/dev/TNJ3324''"

definition setATVFreq :: "kernel \<Rightarrow> int \<Rightarrow> ('a dev_scheme, int) state" where
  "setATVFreq K freq = command K ''ATV_SET_FREQ'' [Some freq, None]"

definition prevPoint :: "kernel \<Rightarrow> ('a dev_scheme, int) state" where
  "prevPoint K = command K ''ATV_SEEK'' [Some 0]"

definition nextPoint :: "kernel \<Rightarrow> ('a dev_scheme, int) state" where
  "nextPoint K = command K ''ATV_SEEK'' [Some 1]"

definition autoScan :: "kernel \<Rightarrow> int \<Rightarrow> ('a dev_scheme, int) state" where
  "autoScan K start = command K ''ATV_AUTO_SCAN'' [Some start]"

definition fineTune :: "kernel \<Rightarrow> int \<Rightarrow> ('a dev_scheme, int) state" where
  "fineTune K up = command K ''ATV_FINE_TUNE'' [Some up]"

definition selectStandard :: "kernel \<Rightarrow> int \<Rightarrow> ('a dev_scheme, int) state" where
  "selectStandard K standard = command K ''ATV_SELECT_STANDARD'' [Some standard]"

text \<open>These return the value, whatever \<open>ioctl\<close> returns.\<close>

definition atv_value :: "kernel \<Rightarrow> string \<Rightarrow> ('a dev_scheme, int option) state" where
  "atv_value K request = do { fd \<leftarrow> handle; (_, buf) \<leftarrow> ioctl K fd request [Some 0]; State_Monad.return (hd buf) }"

definition getNumChannels :: "kernel \<Rightarrow> ('a dev_scheme, int option) state" where
  "getNumChannels K = atv_value K ''ATV_GET_NUM_CHANNELS''"

definition getTVStatus :: "kernel \<Rightarrow> ('a dev_scheme, int option) state" where
  "getTVStatus K = atv_value K ''ATV_GET_TV_STATUS''"

definition getCurFreq :: "kernel \<Rightarrow> ('a dev_scheme, int option) state" where
  "getCurFreq K = atv_value K ''ATV_GET_CURR_FREQ''"

definition isTVAvail :: "kernel \<Rightarrow> ('a dev_scheme, int option) state" where
  "isTVAvail K = atv_value K ''ATV_IS_AVAIL''"

definition getChannel :: "kernel \<Rightarrow> int \<Rightarrow> ('a dev_scheme, int \<times> int option) state" where
  "getChannel K channel =
     do { fd \<leftarrow> handle; (ret, param) \<leftarrow> ioctl K fd ''ATV_GET_CHANNEL'' [Some channel, Some 0]; State_Monad.return (ret, param ! 1) }"

text \<open>The result of \<open>poll\<close> is returned; the status is stored if there is one.\<close>

definition atv_poll :: "kernel \<Rightarrow> 'a dev_scheme \<Rightarrow> ((int \<times> int option option) \<times> 'a dev_scheme) option" where
  "atv_poll K s =
     do {
       (r, s) \<leftarrow> poll_wait K (file_handle s) 2000 True s;
       (case r of
          Poll_failed ret \<Rightarrow> Some ((ret, None), s)
        | Poll_timeout \<Rightarrow> None
        | Poll_error ret \<Rightarrow> Some ((ret, None), s)
        | Poll_ready ret \<Rightarrow>
            let ((_, buf), s) = run_state (ioctl K (file_handle s) ''ATV_GET_TV_STATUS'' [None]) s in Some ((ret, Some (hd buf)), s))
     }"

section \<open>Status of the car: libcarstatus\<close>

definition carstatus_open :: "kernel \<Rightarrow> ('a dev_scheme, int) state" where
  "carstatus_open K = dev_open K ''/dev/carstatus''"

definition carstatus_poll_car_status :: "kernel \<Rightarrow> 'a dev_scheme \<Rightarrow> ((int \<times> int option option) \<times> 'a dev_scheme) option" where
  "carstatus_poll_car_status K s =
     do {
       (r, s) \<leftarrow> poll_wait K (file_handle s) 100 False s;
       (case r of
          Poll_failed ret \<Rightarrow> Some ((-1, None), s)
        | Poll_timeout \<Rightarrow> Some ((-2, None), s)
        | Poll_error ret \<Rightarrow> Some ((ret, None), s)
        | Poll_ready _ \<Rightarrow>
            let ((ret, buf), s) = run_state (ioctl K (file_handle s) ''CARSTATUS_POP_STATUS'' [None]) s
            in Some ((ret, if ret < 0 then None else Some (hd buf)), s))
     }"

definition carstatus_get_status :: "kernel \<Rightarrow> ('a dev_scheme, int \<times> int option option) state" where
  "carstatus_get_status K = query K ''CARSTATUS_GET_STATUS''"

definition carstatus_get_battery_vol :: "kernel \<Rightarrow> ('a dev_scheme, int \<times> int option option) state" where
  "carstatus_get_battery_vol K = query K ''CARSTATUS_BATTERY_VOL''"

definition carstatus_get_battery_high :: "kernel \<Rightarrow> ('a dev_scheme, int \<times> int option option) state" where
  "carstatus_get_battery_high K = query K ''CARSTATUS_BATTERY_HIGH''"

definition carstatus_get_battery_low :: "kernel \<Rightarrow> ('a dev_scheme, int \<times> int option option) state" where
  "carstatus_get_battery_low K = query K ''CARSTATUS_BATTERY_LOW''"

definition carstatus_get_boot_with_media_card :: "kernel \<Rightarrow> ('a dev_scheme, int \<times> int option option) state" where
  "carstatus_get_boot_with_media_card K = query K ''CARSTATUS_BOOT_WITH_MEDIA_CARD''"

definition carstatus_get_boot_with_media_usb :: "kernel \<Rightarrow> ('a dev_scheme, int \<times> int option option) state" where
  "carstatus_get_boot_with_media_usb K = query K ''CARSTATUS_BOOT_WITH_MEDIA_USB''"

definition carstatus_get_boot_with_media_ipod :: "kernel \<Rightarrow> ('a dev_scheme, int \<times> int option option) state" where
  "carstatus_get_boot_with_media_ipod K = query K ''CARSTATUS_BOOT_WITH_MEDIA_IPOD''"

definition carstatus_get_touchpanel_type :: "kernel \<Rightarrow> ('a dev_scheme, int \<times> int option option) state" where
  "carstatus_get_touchpanel_type K = query K ''CARSTATUS_GET_TOUCHPANEL_TYPE''"

definition carstatus_get_ipod_status :: "kernel \<Rightarrow> ('a dev_scheme, int \<times> int option option) state" where
  "carstatus_get_ipod_status K = query K ''CARSTATUS_GET_IPOD_CONNECT_STATUS''"

definition carstatus_set_usb_debug_mode :: "kernel \<Rightarrow> ('a dev_scheme, int \<times> int option option) state" where
  "carstatus_set_usb_debug_mode K = query K ''CARSTATUS_SET_USB_DEBUG_MODE''"

definition carstatus_notify_ready :: "kernel \<Rightarrow> ('a dev_scheme, int) state" where
  "carstatus_notify_ready K = do { ret \<leftarrow> command K ''CARSTATUS_NOTIFY_READY'' []; State_Monad.return (if ret < 0 then ret else 0) }"

definition carstatus_setting_spec :: "kernel \<Rightarrow> int option list \<Rightarrow> ('a dev_scheme, int) state" where
  "carstatus_setting_spec K setting_val =
     do { ret \<leftarrow> command K ''CARSTATUS_SETTING_SPEC'' setting_val; State_Monad.return (if ret < 0 then ret else 0) }"

section \<open>When polling returns\<close>

text \<open>
  C31. The function that polls the television never returns exactly when every poll of its device times out
  or reports neither data nor an error; the one that polls the status of the car never returns exactly
  when every poll reports something that is neither, such as a descriptor that is not open.
\<close>

theorem polls_return_iff:
  fixes s :: "'a dev_scheme"
  shows "(atv_poll K s = None) =
      (\<forall>n. let r = poll_answer K (file_handle s) 2000 (dev_log s) n
           in rp_ret r = 0 \<or> 0 < rp_ret r \<and> rp_revents r AND POLLERR = 0 \<and> rp_revents r AND POLLIN = 0) \<and>
    (carstatus_poll_car_status K s = None) =
      (\<forall>n. let r = poll_answer K (file_handle s) 100 (dev_log s) n
           in 0 < rp_ret r \<and> rp_revents r AND POLLERR = 0 \<and> rp_revents r AND POLLIN = 0)"
proof -
  have "(atv_poll K s = None) = (poll_wait K (file_handle s) 2000 True s = None)"
    by (cases "poll_wait K (file_handle s) 2000 True s")
      (auto simp: atv_poll_def split_beta Let_def split: poll_result.splits dest: poll_wait_no_timeout)
  moreover have "(carstatus_poll_car_status K s = None) = (poll_wait K (file_handle s) 100 False s = None)"
    by (cases "poll_wait K (file_handle s) 100 False s")
      (auto simp: carstatus_poll_car_status_def split_beta Let_def split: poll_result.splits)
  ultimately show ?thesis
    by (simp add: poll_wait_None_iff undecided_cases Let_def)
qed

end
