(* ===== verification/Fm_Radio.thy ===== *)
theory Fm_Radio
  imports Device_Calls
begin

text \<open>
  The radio module, \<^verbatim>\<open>src/hardware/mx5x/libfm/FMRadioHal.cpp\<close>: the tuner and, on units with the TEF6621,
  a second chip for the radio data system, powered on and off through a device file of its own. The
  constants and structures of \<^verbatim>\<open>RDA5990_FM_drv.h\<close>, \<^verbatim>\<open>radio.h\<close> and \<^verbatim>\<open>main.h\<close>, which are not part of the
  sources, are the parameter \<open>C\<close>.
\<close>

section \<open>State\<close>

record fm_consts =
  CHIP_TEF6621 :: int
  CHIP_TEF6624 :: int
  FM_BAND_UE :: int
  FM_SPACE_100K :: int
  rds_group_cells :: nat
  pointer_info_cells :: nat

record fm = dev +
  rds_handle :: int
  tune_parm :: "int option list"
  radio_chip_model :: int

definition fm_initial :: "fm_consts \<Rightarrow> fm" where
  "fm_initial C = \<lparr>file_handle = 0, dev_log = [], rds_handle = -1, tune_parm = [Some 0, Some 0, Some 0], radio_chip_model = CHIP_TEF6621 C\<rparr>"

definition RDA5990FM_PATH_NAME :: string where "RDA5990FM_PATH_NAME = ''/dev/RDA5990_FM''"

definition fm_open :: "fm_consts \<Rightarrow> kernel \<Rightarrow> (fm, int) state" where
  "fm_open C K =
     do {
       ret \<leftarrow> dev_open K ''/dev/FMRadio'';
       if ret = -1 then State_Monad.return (-1)
       else do {
         fd \<leftarrow> handle;
         (ret, buf) \<leftarrow> ioctl K fd ''RADIO_IOCTL_GET_CHIP_MODEL'' [Some (CHIP_TEF6621 C)];
         State_Monad.update (\<lambda>s. s\<lparr>radio_chip_model := if ret < 0 then CHIP_TEF6621 C else the (hd buf)\<rparr>);
         State_Monad.return 0
       }
     }"

section \<open>Tuner\<close>

text \<open>A \<open>bool\<close> is passed by its address, as 0 or 1; \<open>[]\<close> is the null pointer.\<close>

definition fm_init_work :: "kernel \<Rightarrow> (fm, int) state" where
  "fm_init_work K = command K ''RADIO_IOCTL_FM_INIT'' []"

definition am_init_work :: "kernel \<Rightarrow> (fm, int) state" where
  "am_init_work K = command K ''RADIO_IOCTL_AM_INIT'' []"

definition fm_radio_jump_freq :: "kernel \<Rightarrow> int \<Rightarrow> (fm, int) state" where
  "fm_radio_jump_freq K freq = command K ''RADIO_IOCTL_JUMP_FREQUENCE'' [Some freq]"

definition fm_radio_seek :: "kernel \<Rightarrow> bool \<Rightarrow> (fm, int) state" where
  "fm_radio_seek K seek_up_down =
     command K (if seek_up_down then ''RADIO_IOCTL_SEEK_UP'' else ''RADIO_IOCTL_SEEK_DOWN'') [Some (of_bool seek_up_down)]"

definition fm_radio_switch_mode :: "kernel \<Rightarrow> int \<Rightarrow> (fm, int) state" where
  "fm_radio_switch_mode K radio_mode = command K ''RADIO_IOCTL_SWITCH_BAND'' [Some (of_bool (radio_mode = 1))]"

definition fm_radio_as :: "kernel \<Rightarrow> (fm, int) state" where
  "fm_radio_as K = command K ''RADIO_IOCTL_AUTO_SEARCH'' []"

definition fm_radio_loc :: "kernel \<Rightarrow> bool \<Rightarrow> (fm, int) state" where
  "fm_radio_loc K loc = command K ''RADIO_IOCTL_SET_LOCAL'' [Some (of_bool loc)]"

definition fm_radio_stereo :: "kernel \<Rightarrow> bool \<Rightarrow> (fm, int) state" where
  "fm_radio_stereo K stereo = command K ''RADIO_IOCTL_MONO_FORCE'' [Some (of_bool stereo)]"

definition fm_search_stop :: "kernel \<Rightarrow> (fm, int) state" where
  "fm_search_stop K = command K ''RADIO_IOCTL_SEARCH_STOP'' []"

text \<open>Here the buffer is copied to the caller, whatever \<open>ioctl\<close> returns.\<close>

definition fm_fetch :: "kernel \<Rightarrow> string \<Rightarrow> int option list \<Rightarrow> (fm, int \<times> int option list) state" where
  "fm_fetch K request buf = do { fd \<leftarrow> handle; ioctl K fd request buf }"

definition fm_get_curr_conf :: "kernel \<Rightarrow> (fm, int \<times> int option list) state" where
  "fm_get_curr_conf K = fm_fetch K ''RADIO_IOCTL_GET_CURR_CONF'' (replicate 8 None)"

definition fm_set_curr_conf :: "kernel \<Rightarrow> int option list \<Rightarrow> (fm, int) state" where
  "fm_set_curr_conf K conf_array_t = command K ''RADIO_IOCTL_SET_CURR_CONF'' (take 8 conf_array_t)"

definition fm_get_runtime_state :: "fm_consts \<Rightarrow> kernel \<Rightarrow> (fm, int \<times> int option list) state" where
  "fm_get_runtime_state C K = fm_fetch K ''RADIO_IOCTL_RUNTIME_STATE'' (replicate (pointer_info_cells C) None)"

definition fm_get_tune_results :: "kernel \<Rightarrow> int option list \<Rightarrow> (fm, int \<times> int option list) state" where
  "fm_get_tune_results K results = fm_fetch K ''RADIO_IOCTL_TUNE_RESULTS'' results"

definition fm_get_tuning_results :: "kernel \<Rightarrow> int option list \<Rightarrow> (fm, int \<times> int option list) state" where
  "fm_get_tuning_results K results = fm_fetch K ''RADIO_IOCTL_TUNING_RESULTS'' results"

definition fm_radio_as_pty :: "kernel \<Rightarrow> int \<Rightarrow> (fm, int) state" where
  "fm_radio_as_pty K pty = command K ''RADIO_IOCTL_AUTO_SEARCH_PTY'' [Some pty]"

definition fm_radio_seek_pty :: "kernel \<Rightarrow> bool \<Rightarrow> int \<Rightarrow> (fm, int) state" where
  "fm_radio_seek_pty K up pty = command K (if up then ''RADIO_IOCTL_SEEK_UP_PTY'' else ''RADIO_IOCTL_SEEK_DOWN_PTY'') [Some pty]"

definition fm_radio_seek_tp :: "kernel \<Rightarrow> bool \<Rightarrow> (fm, int) state" where
  "fm_radio_seek_tp K up = command K (if up then ''RADIO_IOCTL_SEEK_UP_TP'' else ''RADIO_IOCTL_SEEK_DOWN_TP'') []"

definition fm_reading :: "kernel \<Rightarrow> string \<Rightarrow> (fm, int) state" where
  "fm_reading K request = do { (ret, buf) \<leftarrow> fm_fetch K request [Some 0]; State_Monad.return (if ret < 0 then ret else the (hd buf)) }"

definition fm_radio_get_level :: "kernel \<Rightarrow> (fm, int) state" where
  "fm_radio_get_level K = fm_reading K ''RADIO_IOCTL_GET_LEVEL''"

definition fm_radio_get_frequency :: "kernel \<Rightarrow> (fm, int) state" where
  "fm_radio_get_frequency K = fm_reading K ''RADIO_IOCTL_GET_FREQUENCY''"

section \<open>Radio data system\<close>

definition rds :: "(fm, int) state" where
  "rds = State (\<lambda>s. (rds_handle s, s))"

definition fm_set_rds_enable :: "fm_consts \<Rightarrow> kernel \<Rightarrow> bool \<Rightarrow> (fm, int) state" where
  "fm_set_rds_enable C K enable =
     do {
       chip \<leftarrow> State (\<lambda>s. (radio_chip_model s, s));
       if chip = CHIP_TEF6624 C
       then command K (if enable then ''RADIO_IOCTL_TEF6624_RDSTH_START'' else ''RADIO_IOCTL_TEF6624_RDSTH_STOP'') []
       else if chip = CHIP_TEF6621 C
       then do {
         fd \<leftarrow> rds;
         (ret, _) \<leftarrow> ioctl K fd (if enable then ''FM_IOCTL_RDS_POLL_START'' else ''FM_IOCTL_RDS_POLL_STOP'') [];
         State_Monad.return ret
       }
       else State_Monad.return (-1)
     }"

definition fm_tef6621_rds_enable :: "kernel \<Rightarrow> bool \<Rightarrow> (fm, int) state" where
  "fm_tef6621_rds_enable K enable = command K ''RADIO_IOCTL_RDS_ENABLE'' [Some (of_bool enable)]"

definition tune_to :: "fm_consts \<Rightarrow> int \<Rightarrow> (fm, unit) state" where
  "tune_to C freq = State_Monad.update (\<lambda>s. s\<lparr>tune_parm := [Some (FM_BAND_UE C), Some (FM_SPACE_100K C), Some freq]\<rparr>)"

definition rds_tune :: "kernel \<Rightarrow> string \<Rightarrow> (fm, int) state" where
  "rds_tune K request =
     do {
       fd \<leftarrow> rds;
       parm \<leftarrow> State (\<lambda>s. (tune_parm s, s));
       (ret, parm) \<leftarrow> ioctl K fd request parm;
       State_Monad.update (\<lambda>s. s\<lparr>tune_parm := parm\<rparr>);
       State_Monad.return ret
     }"

definition rds_onoff :: "kernel \<Rightarrow> bool \<Rightarrow> (fm, int) state" where
  "rds_onoff K on = do { fd \<leftarrow> rds; (ret, _) \<leftarrow> ioctl K fd ''FM_IOCTL_RDS_ONOFF'' [Some (of_bool on)]; State_Monad.return ret }"

definition rda_on :: "kernel \<Rightarrow> (fm, int) state" where
  "rda_on K =
     do {
       fd \<leftarrow> rds;
       if fd < 0 then do {
         r \<leftarrow> sys K (Dev_open RDA5990FM_PATH_NAME);
         State_Monad.update (\<lambda>s. s\<lparr>rds_handle := rp_ret r\<rparr>);
         if rp_ret r < 0 then State_Monad.return (rp_ret r)
         else do {
           ret \<leftarrow> rds_tune K ''FM_IOCTL_POWERUP'';
           if ret < 0 then State_Monad.return ret else rds_onoff K True
         }
       }
       else State_Monad.return (-1)
     }"

definition rda_off :: "kernel \<Rightarrow> (fm, int) state" where
  "rda_off K =
     do {
       ret \<leftarrow> rds_onoff K False;
       if ret < 0 then State_Monad.return ret
       else do {
         ret \<leftarrow> rds_tune K ''FM_IOCTL_POWERDOWN'';
         if ret < 0 then State_Monad.return ret
         else do {
           fd \<leftarrow> rds;
           r \<leftarrow> sys K (Dev_close fd);
           if rp_ret r < 0 then State_Monad.return (rp_ret r)
           else do { State_Monad.update (\<lambda>s. s\<lparr>rds_handle := -1\<rparr>); State_Monad.return (rp_ret r) }
         }
       }
     }"

definition fm_rda_power_onoff :: "fm_consts \<Rightarrow> kernel \<Rightarrow> bool \<Rightarrow> (fm, int) state" where
  "fm_rda_power_onoff C K on =
     do {
       chip \<leftarrow> State (\<lambda>s. (radio_chip_model s, s));
       if chip = CHIP_TEF6624 C then State_Monad.return 0
       else do { tune_to C 875; (if on then rda_on K else rda_off K) }
     }"

definition fm_set_rds_freq :: "fm_consts \<Rightarrow> kernel \<Rightarrow> int \<Rightarrow> (fm, int) state" where
  "fm_set_rds_freq C K freq =
     do {
       chip \<leftarrow> State (\<lambda>s. (radio_chip_model s, s));
       if chip = CHIP_TEF6624 C then State_Monad.return 0
       else do { tune_to C freq; rds_tune K ''FM_IOCTL_TUNE''; State_Monad.return 0 }
     }"

definition fm_poll_rds_group :: "fm_consts \<Rightarrow> kernel \<Rightarrow> fm \<Rightarrow> ((int \<times> int option list option) \<times> fm) option" where
  "fm_poll_rds_group C K s =
     (if radio_chip_model s \<noteq> CHIP_TEF6621 C \<and> radio_chip_model s \<noteq> CHIP_TEF6624 C then Some ((-1, None), s)
      else
        let (fd, request) = (if radio_chip_model s = CHIP_TEF6621 C then (rds_handle s, ''FM_IOCTL_RDS_GROUP_POPUP'')
                             else (file_handle s, ''RADIO_IOCTL_TEF6624_RDSGP_POPUP'')) in
        do {
          (r, s) \<leftarrow> poll_wait K fd 0 False s;
          (case r of
             Poll_failed _ \<Rightarrow> Some ((-1, None), s)
           | Poll_timeout \<Rightarrow> Some ((1, None), s)
           | Poll_error _ \<Rightarrow> Some ((-1, None), s)
           | Poll_ready _ \<Rightarrow>
               let ((ret, buf), s) = run_state (ioctl K fd request (replicate (rds_group_cells C) None)) s
               in Some (if ret < 0 then (ret, None) else (0, Some buf), s))
        })"

section \<open>Power of the second chip\<close>

lemma run_rds [simp]: "run_state rds s = (rds_handle s, s)"
  by (simp add: rds_def)

lemma run_ioctl [simp]:
  "run_state (ioctl K fd request buf) s =
     ((rp_ret (K (dev_log s) (Dev_ioctl fd request buf)),
       map Some (take (length buf) (rp_out (K (dev_log s) (Dev_ioctl fd request buf))))
         @ drop (length (rp_out (K (dev_log s) (Dev_ioctl fd request buf)))) buf),
      logged (Dev_ioctl fd request buf) s)"
  by (simp add: ioctl_def)

lemma run_update [simp]: "run_state (State_Monad.update f) s = ((), f s)"
  by (simp add: State_Monad.update_def State_Monad.get_def State_Monad.set_def)

lemma fm_logged_fields [simp]:
  "rds_handle (logged c s) = rds_handle s" "tune_parm (logged c s) = tune_parm s" "radio_chip_model (logged c s) = radio_chip_model s"
  by (simp_all add: logged_def)

lemma run_rds_tune:
  "run_state (rds_tune K request) s =
     (let c = Dev_ioctl (rds_handle s) request (tune_parm s); r = K (dev_log s) c
      in (rp_ret r, (logged c s)\<lparr>tune_parm := map Some (take (length (tune_parm s)) (rp_out r)) @ drop (length (rp_out r)) (tune_parm s)\<rparr>))"
  by (simp add: rds_tune_def Let_def)

lemma run_rds_onoff:
  "run_state (rds_onoff K on) s =
     (let c = Dev_ioctl (rds_handle s) ''FM_IOCTL_RDS_ONOFF'' [Some (of_bool on)] in (rp_ret (K (dev_log s) c), logged c s))"
  by (simp add: rds_onoff_def Let_def)

lemma run_power:
  assumes "radio_chip_model s \<noteq> CHIP_TEF6624 C"
  shows "run_state (fm_rda_power_onoff C K on) s =
     run_state (if on then rda_on K else rda_off K) (s\<lparr>tune_parm := [Some (FM_BAND_UE C), Some (FM_SPACE_100K C), Some 875]\<rparr>)"
  using assms by (simp add: fm_rda_power_onoff_def tune_to_def)

lemmas power_simps = rda_on_def rda_off_def run_rds_tune run_rds_onoff Let_def

text \<open>With the chip's file open, powering on makes no call and fails.\<close>

lemma power_on_when_open:
  assumes "radio_chip_model s \<noteq> CHIP_TEF6624 C" "0 \<le> rds_handle s"
  shows "run_state (fm_rda_power_onoff C K True) s = (-1, s\<lparr>tune_parm := [Some (FM_BAND_UE C), Some (FM_SPACE_100K C), Some 875]\<rparr>)"
  using assms by (simp add: run_power rda_on_def)

text \<open>Powering on again and again, with the results.\<close>

primrec fm_power_ons :: "fm_consts \<Rightarrow> kernel \<Rightarrow> nat \<Rightarrow> (fm, int list) state" where
  "fm_power_ons C K 0 = State_Monad.return []"
| "fm_power_ons C K (Suc n) = do { r \<leftarrow> fm_rda_power_onoff C K True; rs \<leftarrow> fm_power_ons C K n; State_Monad.return (r # rs) }"

lemma power_ons_when_open:
  assumes "radio_chip_model s \<noteq> CHIP_TEF6624 C" "0 \<le> rds_handle s"
  shows "fst (run_state (fm_power_ons C K n) s) = replicate n (-1) \<and> dev_log (snd (run_state (fm_power_ons C K n) s)) = dev_log s"
  using assms
proof (induction n arbitrary: s)
  case (Suc n)
  have "fst (run_state (fm_power_ons C K n) (s\<lparr>tune_parm := p\<rparr>)) = replicate n (-1) \<and>
      dev_log (snd (run_state (fm_power_ons C K n) (s\<lparr>tune_parm := p\<rparr>))) = dev_log s" for p
    using Suc.IH [of "s\<lparr>tune_parm := p\<rparr>"] Suc.prems by simp
  with Suc.prems show ?case by (simp add: power_on_when_open split_beta)
qed simp

text \<open>
  C32. When the chip for the radio data system is opened but does not power up, its file stays open. Every
  further request to power it on then fails without a call to the kernel, however well the chip would
  answer: only a request to power it off, which talks to the chip that never powered up, can close it.
\<close>

theorem fm_power_up_failure_sticks:
  assumes "radio_chip_model s \<noteq> CHIP_TEF6624 C" and "rds_handle s < 0"
    and "rp_ret (K (dev_log s) (Dev_open RDA5990FM_PATH_NAME)) = fd" and "0 \<le> fd"
    and "rp_ret (K (dev_log s @ [Dev_open RDA5990FM_PATH_NAME])
           (Dev_ioctl fd ''FM_IOCTL_POWERUP'' [Some (FM_BAND_UE C), Some (FM_SPACE_100K C), Some 875])) = e" and "e < 0"
    and run: "run_state (fm_rda_power_onoff C K True) s = (ret, s')"
  shows "ret = e \<and> rds_handle s' = fd \<and>
    fst (run_state (fm_power_ons C K' n) s') = replicate n (-1) \<and> dev_log (snd (run_state (fm_power_ons C K' n) s')) = dev_log s'"
proof -
  from run assms have "ret = e" "rds_handle s' = fd" "radio_chip_model s' = radio_chip_model s"
    by (auto simp: run_power power_simps)
  with assms show ?thesis by (simp add: power_ons_when_open)
qed

text \<open>A second chip with file 7 that refuses every request; the later requests meet a kernel that refuses none.\<close>

definition weak_chip :: kernel where
  "weak_chip calls c = (case c of
       Dev_open _ \<Rightarrow> \<lparr>rp_ret = 7, rp_out = [], rp_revents = 0\<rparr>
     | _ \<Rightarrow> \<lparr>rp_ret = -5, rp_out = [], rp_revents = 0\<rparr>)"

definition example_consts :: fm_consts where
  "example_consts = \<lparr>CHIP_TEF6621 = 0, CHIP_TEF6624 = 1, FM_BAND_UE = 1, FM_SPACE_100K = 0, rds_group_cells = 8, pointer_info_cells = 2\<rparr>"

theorem fm_power_up_failure_sticks_witness:
  "fst (run_state (fm_rda_power_onoff example_consts weak_chip True) (fm_initial example_consts)) = -5 \<and>
   fst (run_state (fm_power_ons example_consts (\<lambda>_ _. \<lparr>rp_ret = 0, rp_out = [], rp_revents = 0\<rparr>) 3)
     (snd (run_state (fm_rda_power_onoff example_consts weak_chip True) (fm_initial example_consts)))) = [-1, -1, -1]"
  using fm_power_up_failure_sticks [of "fm_initial example_consts" example_consts weak_chip 7 "-5"
      "fst (run_state (fm_rda_power_onoff example_consts weak_chip True) (fm_initial example_consts))"
      "snd (run_state (fm_rda_power_onoff example_consts weak_chip True) (fm_initial example_consts))"
      "\<lambda>_ _. \<lparr>rp_ret = 0, rp_out = [], rp_revents = 0\<rparr>" 3]
  by (simp add: fm_initial_def example_consts_def weak_chip_def numeral_3_eq_3 del: fm_power_ons.simps)

text \<open>When the kernel refuses nothing, powering on and off are six calls in order and leave the file closed.\<close>

lemma fm_power_cycle:
  assumes "radio_chip_model s \<noteq> CHIP_TEF6624 C" "rds_handle s < 0" and ok: "\<And>calls c. 0 \<le> rp_ret (K calls c)"
  shows "\<exists>fd parm s'. run_state (do { fm_rda_power_onoff C K True; fm_rda_power_onoff C K False }) s = (rp_ret (K (butlast (dev_log s')) (last (dev_log s'))), s') \<and>
    rds_handle s' = -1 \<and> parm = [Some (FM_BAND_UE C), Some (FM_SPACE_100K C), Some 875] \<and>
    dev_log s' = dev_log s @ [Dev_open RDA5990FM_PATH_NAME, Dev_ioctl fd ''FM_IOCTL_POWERUP'' parm,
      Dev_ioctl fd ''FM_IOCTL_RDS_ONOFF'' [Some 1], Dev_ioctl fd ''FM_IOCTL_RDS_ONOFF'' [Some 0],
      Dev_ioctl fd ''FM_IOCTL_POWERDOWN'' parm, Dev_close fd]"
  using assms(1,2) by (simp add: run_power power_simps ok not_less [THEN iffD2, OF ok] butlast_append)

end
