(* ===== verification/Event_Reader.thy ===== *)
theory Event_Reader
  imports Prelude
begin

text \<open>
  The circular buffer of the sensor module, \<^verbatim>\<open>src/hardware/mx5x/libsensors/InputEventReader.cpp\<close>. The
  pointers are indices into the buffer, which has twice the length of the ring: a read goes on behind
  the end of the ring, and what lies there is copied to its front. The abstraction is the list of the
  events not yet consumed. An access outside the buffer is \<open>None\<close>.
\<close>

section \<open>Operations\<close>

record 'e reader =
  mBuffer :: "'e list"
  mBufferEnd :: nat
  mHead :: nat
  mCurr :: nat
  mFreeSpace :: int

text \<open>The storage a constructor gets is not initialised: it is a parameter.\<close>

definition new_reader :: "'e list \<Rightarrow> nat \<Rightarrow> 'e reader" where
  "new_reader storage numEvents =
     \<lparr>mBuffer = storage, mBufferEnd = numEvents, mHead = 0, mCurr = 0, mFreeSpace = int numEvents\<rparr>"

definition store_at :: "'e list \<Rightarrow> nat \<Rightarrow> 'e list \<Rightarrow> 'e list option" where
  "store_at a i xs = (if i + length xs \<le> length a then Some (take i a @ xs @ drop (i + length xs) a) else None)"

text \<open>
  The answer of \<open>read\<close>: an error, a number of bytes that is no multiple of the size of an event (the
  buffer is overwritten all the same), or events. It depends on the number of events asked for.
\<close>

datatype 'e read_result = Read_error int | Read_partial "'e list" | Read_events "'e list"

definition fill :: "(int \<Rightarrow> 'e read_result) \<Rightarrow> 'e reader \<Rightarrow> (int \<times> 'e reader) option" where
  "fill read r =
     (if mFreeSpace r = 0 then Some (0, r)
      else case read (mFreeSpace r) of
        Read_error errno \<Rightarrow> Some (- errno, r)
      | Read_partial junk \<Rightarrow> do { buf \<leftarrow> store_at (mBuffer r) (mHead r) junk; Some (-22, r\<lparr>mBuffer := buf\<rparr>) }
      | Read_events es \<Rightarrow>
          do {
            buf \<leftarrow> store_at (mBuffer r) (mHead r) es;
            let head = mHead r + length es;
                r = r\<lparr>mBuffer := buf, mFreeSpace := mFreeSpace r - int (length es)\<rparr> in
            if head > mBufferEnd r then
              do {
                let s = head - mBufferEnd r;
                buf \<leftarrow> store_at buf 0 (take s (drop (mBufferEnd r) buf));
                Some (int (length es), r\<lparr>mBuffer := buf, mHead := s\<rparr>)
              }
            else Some (int (length es), r\<lparr>mHead := head\<rparr>)
          })"

definition readEvent :: "'e reader \<Rightarrow> bool" where
  "readEvent r = (int (mBufferEnd r) - mFreeSpace r \<noteq> 0)"

text \<open>The event the pointer that \<open>readEvent\<close> stores points to.\<close>

definition current_event :: "'e reader \<Rightarrow> 'e option" where
  "current_event r = (if mCurr r < length (mBuffer r) then Some (mBuffer r ! mCurr r) else None)"

definition next_event :: "'e reader \<Rightarrow> 'e reader" where
  "next_event r = r\<lparr>mCurr := if mCurr r + 1 \<ge> mBufferEnd r then 0 else mCurr r + 1, mFreeSpace := mFreeSpace r + 1\<rparr>"

section \<open>Abstraction\<close>

definition available :: "'e reader \<Rightarrow> nat" where
  "available r = nat (int (mBufferEnd r) - mFreeSpace r)"

definition unread :: "'e reader \<Rightarrow> 'e list" where
  "unread r = map (\<lambda>i. mBuffer r ! ((mCurr r + i) mod mBufferEnd r)) [0..<available r]"

text \<open>The head may stand behind the last place of the ring, which is then its first.\<close>

definition ring_ok :: "'e reader \<Rightarrow> bool" where
  "ring_ok r \<longleftrightarrow> 0 < mBufferEnd r \<and> length (mBuffer r) = 2 * mBufferEnd r \<and> mCurr r < mBufferEnd r \<and> mHead r \<le> mBufferEnd r \<and>
     0 \<le> mFreeSpace r \<and> mFreeSpace r \<le> int (mBufferEnd r) \<and>
     mHead r mod mBufferEnd r = (mCurr r + available r) mod mBufferEnd r"

text \<open>\<open>read\<close> gives no more than was asked for.\<close>

fun answer_ok :: "int \<Rightarrow> 'e read_result \<Rightarrow> bool" where
  "answer_ok room (Read_error errno) = (0 < errno)"
| "answer_ok room (Read_partial junk) = (int (length junk) \<le> room)"
| "answer_ok room (Read_events es) = (int (length es) \<le> room)"

lemma new_reader_ok:
  "0 < n \<Longrightarrow> length storage = 2 * n \<Longrightarrow> ring_ok (new_reader storage n) \<and> unread (new_reader storage n) = []"
  by (simp add: new_reader_def ring_ok_def unread_def available_def)

lemma length_unread [simp]: "length (unread r) = available r"
  by (simp add: unread_def)

lemma readEvent_iff: "ring_ok r \<Longrightarrow> readEvent r \<longleftrightarrow> unread r \<noteq> []"
  by (auto simp: readEvent_def ring_ok_def unread_def available_def)

lemma current_event_hd: "ring_ok r \<Longrightarrow> unread r \<noteq> [] \<Longrightarrow> current_event r = Some (hd (unread r))"
  by (auto simp: current_event_def ring_ok_def unread_def hd_map upt_conv_Cons)

lemma next_event_tl:
  assumes "ring_ok r" "unread r \<noteq> []"
  shows "ring_ok (next_event r) \<and> unread (next_event r) = tl (unread r)"
proof -
  have pos: "0 < available r" using assms(2) by (simp add: unread_def)
  have avail: "available (next_event r) = available r - 1" using pos by (simp add: available_def next_event_def)
  have curr: "mCurr (next_event r) = (mCurr r + 1) mod mBufferEnd r" and same: "mBufferEnd (next_event r) = mBufferEnd r"
    "mBuffer (next_event r) = mBuffer r" "mHead (next_event r) = mHead r"
    using assms(1) by (auto simp: next_event_def ring_ok_def mod_if le_Suc_eq)
  have "unread (next_event r) = map (\<lambda>i. mBuffer r ! ((mCurr r + Suc i) mod mBufferEnd r)) [0..<available r - 1]"
    by (simp add: unread_def avail curr same mod_simps)
  also have "\<dots> = tl (unread r)"
    by (rule nth_equalityI) (simp_all add: unread_def nth_tl less_diff_conv)
  finally have u: "unread (next_event r) = tl (unread r)" .
  have "(mCurr (next_event r) + available (next_event r)) mod mBufferEnd r = (mCurr r + available r) mod mBufferEnd r"
    using pos by (cases "available r") (simp_all add: curr avail mod_simps)
  with assms(1) u pos show ?thesis
    by (auto simp: ring_ok_def curr same next_event_def available_def)
qed

section \<open>Filling\<close>

lemma mod_wrap: "x < 2 * n \<Longrightarrow> x mod n = (if x < n then x else x - (n::nat))"
  by (simp add: mod_if)

text \<open>A place of the ring that holds an unread event is not one of the free places behind the head.\<close>

lemma ring_disjoint:
  assumes "ring_ok r" "i < available r" "j < nat (mFreeSpace r)"
  shows "(mCurr r + i) mod mBufferEnd r \<noteq> (mHead r + j) mod mBufferEnd r"
proof -
  let ?n = "mBufferEnd r"
  have "(mHead r + j) mod ?n = (mCurr r + (available r + j)) mod ?n"
    using assms(1) by (metis add.assoc mod_add_left_eq ring_ok_def)
  moreover have "available r + j < ?n" "mCurr r < ?n" using assms by (auto simp: ring_ok_def available_def)
  ultimately show ?thesis using assms(2) by (auto simp: mod_wrap)
qed

lemma store_at_nth:
  assumes "store_at a i xs = Some b"
  shows "length b = length a \<and> (\<forall>k < length a. b ! k = (if i \<le> k \<and> k < i + length xs then xs ! (k - i) else a ! k))"
  using assms by (auto simp: store_at_def nth_append min_def split: if_splits)

lemma store_at_ok: "i + length xs \<le> length a \<Longrightarrow> \<exists>b. store_at a i xs = Some b"
  by (simp add: store_at_def)

text \<open>Events that are read are in the ring, in the places from the head on, and nothing else changes there.\<close>

lemma fill_places:
  assumes ok: "ring_ok r" and free: "mFreeSpace r \<noteq> 0" and ans: "read (mFreeSpace r) = Read_events es"
    and len: "int (length es) \<le> mFreeSpace r"
  shows "\<exists>buf h. fill read r = Some (int (length es), r\<lparr>mBuffer := buf, mFreeSpace := mFreeSpace r - int (length es), mHead := h\<rparr>) \<and>
    length buf = length (mBuffer r) \<and> h \<le> mBufferEnd r \<and> h mod mBufferEnd r = (mHead r + length es) mod mBufferEnd r \<and>
    (\<forall>j < length es. buf ! ((mHead r + j) mod mBufferEnd r) = es ! j) \<and>
    (\<forall>p < mBufferEnd r. (\<forall>j < length es. p \<noteq> (mHead r + j) mod mBufferEnd r) \<longrightarrow> buf ! p = mBuffer r ! p)"
proof -
  let ?n = "mBufferEnd r"
  have bounds: "length es \<le> ?n" "mHead r \<le> ?n" "0 < ?n" "length (mBuffer r) = 2 * ?n" using ok len by (auto simp: ring_ok_def)
  then obtain b where b: "store_at (mBuffer r) (mHead r) es = Some b" using store_at_ok [of "mHead r" es "mBuffer r"] by auto
  note nb = store_at_nth [OF b]
  show ?thesis
  proof (cases "mHead r + length es > ?n")
    case False
    then have "(mHead r + j) mod ?n = mHead r + j" if "j < length es" for j using that by simp
    moreover have "b ! p = mBuffer r ! p" if "p < ?n" "\<forall>j < length es. p \<noteq> mHead r + j" for p
    proof -
      have "\<not> (mHead r \<le> p \<and> p < mHead r + length es)" using that(2) [rule_format, of "p - mHead r"] by (auto simp: less_diff_conv2)
      with that(1) nb bounds show ?thesis by auto
    qed
    ultimately show ?thesis using False b nb bounds free ans
      by (intro exI [of _ b] exI [of _ "mHead r + length es"]) (auto simp: fill_def Let_def)
  next
    case True
    define s where "s = mHead r + length es - ?n"
    let ?xs = "take s (drop ?n b)"
    have s: "s \<le> ?n" "length ?xs = s" using bounds nb True by (auto simp: s_def)
    then obtain c where c: "store_at b 0 ?xs = Some c" using store_at_ok [of 0 ?xs b] bounds nb by auto
    have c_nth: "c ! p = (if p < s then es ! (?n + p - mHead r) else b ! p)" if "p < ?n" for p
      using store_at_nth [OF c] nb s bounds True that by (auto simp: s_def)
    have wrap: "(mHead r + j) mod ?n = (if mHead r + j < ?n then mHead r + j else mHead r + j - ?n)" if "j < length es" for j
      using that bounds by (intro mod_wrap) simp
    have run: "fill read r = Some (int (length es), r\<lparr>mBuffer := c, mFreeSpace := mFreeSpace r - int (length es), mHead := s\<rparr>)"
      using b c True free ans by (simp add: fill_def Let_def s_def)
    have in_place: "c ! ((mHead r + j) mod ?n) = es ! j" if "j < length es" for j
    proof (cases "mHead r + j < ?n")
      case True
      have "s \<le> mHead r + j" using bounds that len ok by (simp add: s_def)
      with True that show ?thesis using c_nth nb bounds by simp
    next
      case False
      with that bounds have "mHead r + j - ?n < s" "mHead r + j - ?n < ?n" by (auto simp: s_def)
      with False that show ?thesis by (simp add: wrap c_nth)
    qed
    have kept: "c ! p = mBuffer r ! p" if p: "p < ?n" and other: "\<forall>j < length es. p \<noteq> (mHead r + j) mod ?n" for p
    proof -
      have "\<not> p < s"
      proof
        assume "p < s"
        then have j: "?n + p - mHead r < length es" using bounds True unfolding s_def by linarith
        with other wrap [OF j] bounds show False by auto
      qed
      moreover have "\<not> (mHead r \<le> p \<and> p < mHead r + length es)" using other [rule_format, of "p - mHead r"] p by (auto simp: less_diff_conv2)
      ultimately show ?thesis using c_nth [OF p] nb p bounds by auto
    qed
    have "s mod ?n = (mHead r + length es) mod ?n" using True by (simp add: s_def le_mod_geq)
    moreover have "length c = length (mBuffer r)" using store_at_nth [OF c] nb by simp
    ultimately show ?thesis using run s(1) in_place kept by (intro exI [of _ c] exI [of _ s] conjI allI impI) simp_all
  qed
qed

text \<open>What a call of \<open>fill\<close> adds to the unread events.\<close>

definition received :: "(int \<Rightarrow> 'e read_result) \<Rightarrow> 'e reader \<Rightarrow> 'e list" where
  "received read r = (if mFreeSpace r = 0 then [] else case read (mFreeSpace r) of Read_events es \<Rightarrow> es | _ \<Rightarrow> [])"

lemma unread_same_places:
  assumes "available r' = available r" "mCurr r' = mCurr r" "mBufferEnd r' = mBufferEnd r"
    and "\<And>i. i < available r \<Longrightarrow> mBuffer r' ! ((mCurr r + i) mod mBufferEnd r) = mBuffer r ! ((mCurr r + i) mod mBufferEnd r)"
  shows "unread r' = unread r"
  using assms by (simp add: unread_def)

lemma fill_events:
  assumes ok: "ring_ok r" and free: "mFreeSpace r \<noteq> 0" and ans: "read (mFreeSpace r) = Read_events es"
    and len: "int (length es) \<le> mFreeSpace r"
  shows "\<exists>r'. fill read r = Some (int (length es), r') \<and> ring_ok r' \<and> unread r' = unread r @ es"
proof -
  let ?n = "mBufferEnd r"
  obtain buf h where run: "fill read r = Some (int (length es), r\<lparr>mBuffer := buf, mFreeSpace := mFreeSpace r - int (length es), mHead := h\<rparr>)"
    and buf: "length buf = length (mBuffer r)" and h: "h \<le> ?n" "h mod ?n = (mHead r + length es) mod ?n"
    and new: "\<forall>j < length es. buf ! ((mHead r + j) mod ?n) = es ! j"
    and old: "\<forall>p < ?n. (\<forall>j < length es. p \<noteq> (mHead r + j) mod ?n) \<longrightarrow> buf ! p = mBuffer r ! p"
    using fill_places [of r read es, OF assms] by blast
  let ?r = "r\<lparr>mBuffer := buf, mFreeSpace := mFreeSpace r - int (length es), mHead := h\<rparr>"
  have avail: "available ?r = available r + length es" using ok by (auto simp: available_def ring_ok_def)
  have shift: "(mHead r + j) mod ?n = (mCurr r + (available r + j)) mod ?n" for j
    using ok by (metis add.assoc mod_add_left_eq ring_ok_def)
  have "unread ?r ! i = (unread r @ es) ! i" if i: "i < available r + length es" for i
  proof (cases "i < available r")
    case True
    have "0 < ?n" using ok by (simp add: ring_ok_def)
    then have "buf ! ((mCurr r + i) mod ?n) = mBuffer r ! ((mCurr r + i) mod ?n)"
      using old ring_disjoint [OF ok True] len by simp
    with True i avail show ?thesis by (simp add: unread_def nth_append)
  next
    case False
    then have "(mCurr r + i) mod ?n = (mHead r + (i - available r)) mod ?n" using shift [of "i - available r"] by simp
    moreover have "i - available r < length es" using i False by simp
    ultimately have "buf ! ((mCurr r + i) mod ?n) = es ! (i - available r)" using new by metis
    with False i avail show ?thesis by (simp add: unread_def nth_append)
  qed
  then have "unread ?r = unread r @ es" by (intro nth_equalityI) (simp_all add: avail)
  moreover have "ring_ok ?r" using ok h buf len shift [of "length es"] by (simp add: ring_ok_def avail)
  ultimately show ?thesis using run by blast
qed

lemma fill_partial:
  assumes ok: "ring_ok r" and free: "mFreeSpace r \<noteq> 0" and ans: "read (mFreeSpace r) = Read_partial junk"
    and len: "int (length junk) \<le> mFreeSpace r"
  shows "\<exists>r'. fill read r = Some (-22, r') \<and> ring_ok r' \<and> unread r' = unread r"
proof -
  have bounds: "length junk \<le> mBufferEnd r" "mHead r \<le> mBufferEnd r" "0 < mBufferEnd r" "length (mBuffer r) = 2 * mBufferEnd r"
    using ok len by (auto simp: ring_ok_def)
  then obtain b where b: "store_at (mBuffer r) (mHead r) junk = Some b" using store_at_ok [of "mHead r" junk "mBuffer r"] by auto
  have "b ! ((mCurr r + i) mod mBufferEnd r) = mBuffer r ! ((mCurr r + i) mod mBufferEnd r)" if i: "i < available r" for i
  proof -
    let ?p = "(mCurr r + i) mod mBufferEnd r"
    have p: "?p < mBufferEnd r" using bounds by simp
    have "\<not> (mHead r \<le> ?p \<and> ?p < mHead r + length junk)"
      using ring_disjoint [OF ok i, of "?p - mHead r"] len by (auto simp: less_diff_conv2 nat_less_iff zless_nat_eq_int_zless)
    moreover have "?p < length (mBuffer r)" using p bounds by linarith
    ultimately show ?thesis using store_at_nth [OF b] by auto
  qed
  then have "unread (r\<lparr>mBuffer := b\<rparr>) = unread r" by (intro unread_same_places) (simp_all add: available_def)
  moreover have "ring_ok (r\<lparr>mBuffer := b\<rparr>)" using ok store_at_nth [OF b] by (simp add: ring_ok_def available_def)
  ultimately show ?thesis using b free ans by (simp add: fill_def)
qed

lemma fill_appends:
  assumes ok: "ring_ok r" and ans: "answer_ok (mFreeSpace r) (read (mFreeSpace r))"
  shows "\<exists>n r'. fill read r = Some (n, r') \<and> ring_ok r' \<and> unread r' = unread r @ received read r \<and>
    (0 \<le> n \<longrightarrow> n = int (length (received read r))) \<and> (n < 0 \<longrightarrow> received read r = [])"
proof (cases "mFreeSpace r = 0")
  case True
  with ok show ?thesis by (simp add: fill_def received_def)
next
  case False
  show ?thesis
  proof (cases "read (mFreeSpace r)")
    case (Read_error e)
    with ok ans False show ?thesis by (simp add: fill_def received_def)
  next
    case (Read_partial junk)
    with ans fill_partial [of r read junk, OF ok False Read_partial] False show ?thesis by (auto simp: received_def)
  next
    case (Read_events es)
    with ans fill_events [of r read es, OF ok False Read_events] False show ?thesis by (auto simp: received_def)
  qed
qed

section \<open>A queue\<close>

text \<open>What a sensor does with its reader: it fills it, and takes an event if there is one.\<close>

datatype 'e reader_op = Fill "int \<Rightarrow> 'e read_result" | Take

fun run_reader :: "'e reader_op list \<Rightarrow> 'e reader \<Rightarrow> ('e list \<times> 'e list \<times> 'e reader) option" where
  "run_reader [] r = Some ([], [], r)"
| "run_reader (Fill read # ops) r =
     do { (_, r') \<leftarrow> fill read r; (got, taken, r'') \<leftarrow> run_reader ops r'; Some (received read r @ got, taken, r'') }"
| "run_reader (Take # ops) r =
     (if readEvent r
      then do { e \<leftarrow> current_event r; (got, taken, r') \<leftarrow> run_reader ops (next_event r); Some (got, e # taken, r') }
      else run_reader ops r)"

lemma run_reader_queue:
  assumes "ring_ok r" and "\<forall>read room. Fill read \<in> set ops \<longrightarrow> answer_ok room (read room)"
  shows "\<exists>got taken r'. run_reader ops r = Some (got, taken, r') \<and> ring_ok r' \<and> taken @ unread r' = unread r @ got"
  using assms
proof (induction ops r rule: run_reader.induct)
  case (2 read ops r)
  obtain n r' where f: "fill read r = Some (n, r')" "ring_ok r'" "unread r' = unread r @ received read r"
    using fill_appends [of r read] 2 by (metis list.set_intros(1))
  with "2.IH" [OF f(1) [symmetric, THEN sym] refl] "2.prems" show ?case by fastforce
next
  case (3 ops r)
  show ?case
  proof (cases "readEvent r")
    case True
    then have "unread r \<noteq> []" using 3 readEvent_iff by blast
    with True 3 current_event_hd [of r] next_event_tl [of r] show ?thesis by (fastforce simp: hd_Cons_tl neq_Nil_conv)
  next
    case False
    with 3 show ?thesis by simp
  qed
qed simp

text \<open>
  C18. The circular buffer of the sensors is a queue: whatever a sensor does with it and however the kernel
  cuts the events into reads, errors and partial reads included, no access leaves the buffer, and the
  events taken, followed by those not yet taken, are the events received, in order.
\<close>

theorem reader_first_in_first_out:
  assumes "0 < numEvents" and "length storage = 2 * numEvents"
    and "\<forall>read room. Fill read \<in> set ops \<longrightarrow> answer_ok room (read room)"
  shows "\<exists>got taken r. run_reader ops (new_reader storage numEvents) = Some (got, taken, r) \<and> taken @ unread r = got"
  using run_reader_queue [of "new_reader storage numEvents" ops] new_reader_ok [OF assms(1,2)] assms(3) by auto

text \<open>Three places: the second read goes over the end of the ring.\<close>

definition up_to_two :: "nat \<Rightarrow> nat \<Rightarrow> int \<Rightarrow> nat read_result" where
  "up_to_two a b room = (if room < 0 then Read_error 22 else Read_events (take (nat room) [a, b]))"

theorem reader_first_in_first_out_witness:
  "map_option (\<lambda>(got, taken, _). (got, taken))
     (run_reader [Fill (up_to_two 1 2), Take, Fill (up_to_two 3 4), Take, Take, Take] (new_reader (replicate 6 0) 3)) = Some ([1, 2, 3, 4], [1, 2, 3, 4]) \<and>
   (\<exists>got taken r. run_reader [Fill (up_to_two 1 2), Take, Fill (up_to_two 3 4), Take, Take, Take] (new_reader (replicate 6 0) 3) = Some (got, taken, r) \<and>
     taken @ unread r = got)"
  by (rule conjI, code_simp, rule reader_first_in_first_out) (auto simp: up_to_two_def)

end
