(* ===== verification/Sensors.thy ===== *)
theory Sensors
  imports Event_Reader
begin

text \<open>
  The accelerometer and the compass of the sensor module, \<^verbatim>\<open>AccelSensor.cpp\<close> and \<^verbatim>\<open>MagSensor.cpp\<close> under
  \<^verbatim>\<open>src/hardware/mx5x/libsensors\<close>: input events are collected into pending reports, which are given to
  the caller at the next synchronisation event, as many as it has room for. The products with the
  floating-point constants of \<^verbatim>\<open>sensors.h\<close> are the parameter \<open>A\<close>.
\<close>

section \<open>Data\<close>

record input_event =
  ev_time :: "int \<times> int"
  ev_type :: u16
  ev_code :: u16
  ev_value :: int

definition EV_SYN :: u16 where "EV_SYN = 0"
definition EV_ABS :: u16 where "EV_ABS = 3"
definition ABS_X :: u16 where "ABS_X = 0"
definition ABS_Y :: u16 where "ABS_Y = 1"
definition ABS_Z :: u16 where "ABS_Z = 2"
definition ABS_RX :: u16 where "ABS_RX = 3"
definition ABS_RY :: u16 where "ABS_RY = 4"
definition ABS_RZ :: u16 where "ABS_RZ = 5"
definition ABS_WHEEL :: u16 where "ABS_WHEEL = 8"

text \<open>The vector of a report; azimuth, pitch and roll share its memory.\<close>

record 'f sensors_event =
  se_sensor :: int
  se_type :: int
  se_timestamp :: int
  se_x :: 'f
  se_y :: 'f
  se_z :: 'f
  se_status :: u8

record 'f sensor =
  mEnabled :: u32
  mPendingMask :: u32
  mInputReader :: "input_event reader"
  mPendingEvents :: "'f sensors_event list"

record 'f accel = "'f sensor" +
  mHwRotation :: int

record 'f sensor_arith =
  fzero :: 'f
  fneg :: "'f \<Rightarrow> 'f"
  times_A_X :: "int \<Rightarrow> 'f"
  times_A_Y :: "int \<Rightarrow> 'f"
  times_A_Z :: "int \<Rightarrow> 'f"
  times_M_X :: "int \<Rightarrow> 'f"
  times_M_Y :: "int \<Rightarrow> 'f"
  times_M_Z :: "int \<Rightarrow> 'f"
  times_O_Y :: "int \<Rightarrow> 'f"
  times_O_P :: "int \<Rightarrow> 'f"
  times_O_R :: "int \<Rightarrow> 'f"

text \<open>With 32 bits of seconds and less than a million microseconds this is far from the limits of 64 bits.\<close>

definition timevalToNano :: "int \<times> int \<Rightarrow> int" where
  "timevalToNano t = fst t * 1000000000 + snd t * 1000"

definition mask_bit :: "nat \<Rightarrow> u32" where
  "mask_bit j = push_bit j 1"

section \<open>Reading events\<close>

definition stamp :: "int \<Rightarrow> nat \<Rightarrow> ('f, 'm) sensor_scheme \<Rightarrow> ('f, 'm) sensor_scheme" where
  "stamp time j s = s\<lparr>mPendingMask := mPendingMask s AND NOT (mask_bit j),
     mPendingEvents := (mPendingEvents s)[j := (mPendingEvents s ! j)\<lparr>se_timestamp := time\<rparr>]\<rparr>"

text \<open>The loop over the sensors at a synchronisation event, with the room left and the reports.\<close>

fun report_pending :: "int \<Rightarrow> nat list \<Rightarrow> int \<Rightarrow> ('f, 'm) sensor_scheme \<Rightarrow> int \<times> 'f sensors_event list \<times> ('f, 'm) sensor_scheme" where
  "report_pending time [] count s = (count, [], s)"
| "report_pending time (j # js) count s =
     (if count = 0 \<or> mPendingMask s = 0 then (count, [], s)
      else if mPendingMask s AND mask_bit j \<noteq> 0 then
        (let s = stamp time j s in
         if mEnabled s AND mask_bit j \<noteq> 0
         then (let (count, out, s') = report_pending time js (count - 1) s in (count, mPendingEvents s ! j # out, s'))
         else report_pending time js count s)
      else report_pending time js count s)"

definition consume :: "('f, 'm) sensor_scheme \<Rightarrow> ('f, 'm) sensor_scheme" where
  "consume s = s\<lparr>mInputReader := next_event (mInputReader s)\<rparr>"

partial_function (option) sensor_loop ::
  "(u16 \<Rightarrow> int \<Rightarrow> ('f, 'm) sensor_scheme \<Rightarrow> ('f, 'm) sensor_scheme) \<Rightarrow> nat \<Rightarrow> int \<Rightarrow> ('f, 'm) sensor_scheme
     \<Rightarrow> ('f sensors_event list \<times> ('f, 'm) sensor_scheme) option" where
  "sensor_loop process numSensors count s =
     (if count \<noteq> 0 \<and> readEvent (mInputReader s) then
        do {
          e \<leftarrow> current_event (mInputReader s);
          if ev_type e = EV_ABS then sensor_loop process numSensors count (consume (process (ev_code e) (ev_value e) s))
          else if ev_type e = EV_SYN then
            (case report_pending (timevalToNano (ev_time e)) [0..<numSensors] count s of
               (count, out, s) \<Rightarrow>
                 do {
                   (rest, s) \<leftarrow> sensor_loop process numSensors count (if mPendingMask s = 0 then consume s else s);
                   Some (out @ rest, s)
                 })
          else sensor_loop process numSensors count (consume s)
        }
      else Some ([], s))"

declare sensor_loop.simps [code]

definition sensor_readEvents ::
  "(u16 \<Rightarrow> int \<Rightarrow> ('f, 'm) sensor_scheme \<Rightarrow> ('f, 'm) sensor_scheme) \<Rightarrow> nat \<Rightarrow> (int \<Rightarrow> input_event read_result) \<Rightarrow> int
     \<Rightarrow> ('f, 'm) sensor_scheme \<Rightarrow> (int \<times> 'f sensors_event list \<times> ('f, 'm) sensor_scheme) option" where
  "sensor_readEvents process numSensors read count s =
     (if count < 1 then Some (-22, [], s)
      else do {
        (n, r) \<leftarrow> fill read (mInputReader s);
        let s = s\<lparr>mInputReader := r\<rparr>;
        if n < 0 then Some (n, [], s)
        else do { (out, s) \<leftarrow> sensor_loop process numSensors count s; Some (int (length out), out, s) }
      })"

section \<open>Accelerometer\<close>

definition pending_at :: "nat \<Rightarrow> ('f sensors_event \<Rightarrow> 'f sensors_event) \<Rightarrow> ('f, 'm) sensor_scheme \<Rightarrow> ('f, 'm) sensor_scheme" where
  "pending_at j f s = s\<lparr>mPendingEvents := (mPendingEvents s)[j := f (mPendingEvents s ! j)]\<rparr>"

definition mark :: "nat \<Rightarrow> ('f, 'm) sensor_scheme \<Rightarrow> ('f, 'm) sensor_scheme" where
  "mark j s = s\<lparr>mPendingMask := mPendingMask s OR mask_bit j\<rparr>"

definition accel_init :: "'f sensor_arith \<Rightarrow> input_event list \<Rightarrow> int \<Rightarrow> 'f accel" where
  "accel_init A storage hwrotation =
     \<lparr>mEnabled = 0, mPendingMask = 0, mInputReader = new_reader storage 32,
      mPendingEvents = [\<lparr>se_sensor = 0, se_type = 1, se_timestamp = 0, se_x = fzero A, se_y = fzero A, se_z = fzero A, se_status = 3\<rparr>],
      mHwRotation = hwrotation\<rparr>"

definition accel_processEvent :: "'f sensor_arith \<Rightarrow> u16 \<Rightarrow> int \<Rightarrow> 'f accel \<Rightarrow> 'f accel" where
  "accel_processEvent A code v s =
     (if code = ABS_X then
        let t = times_A_X A v; s = mark 0 s in
        if mHwRotation s = 0 then pending_at 0 (\<lambda>e. e\<lparr>se_y := fneg A t\<rparr>) s
        else if mHwRotation s = 1 then pending_at 0 (\<lambda>e. e\<lparr>se_x := t\<rparr>) s
        else if mHwRotation s = 2 then pending_at 0 (\<lambda>e. e\<lparr>se_y := t\<rparr>) s
        else if mHwRotation s = 3 then pending_at 0 (\<lambda>e. e\<lparr>se_x := fneg A t\<rparr>) s
        else s
      else if code = ABS_Y then
        let t = times_A_Y A v; s = mark 0 s in
        if mHwRotation s = 0 then pending_at 0 (\<lambda>e. e\<lparr>se_x := t\<rparr>) s
        else if mHwRotation s = 1 then pending_at 0 (\<lambda>e. e\<lparr>se_y := t\<rparr>) s
        else if mHwRotation s = 2 then pending_at 0 (\<lambda>e. e\<lparr>se_x := fneg A t\<rparr>) s
        else if mHwRotation s = 3 then pending_at 0 (\<lambda>e. e\<lparr>se_y := fneg A t\<rparr>) s
        else s
      else if code = ABS_Z then pending_at 0 (\<lambda>e. e\<lparr>se_z := times_A_Z A v\<rparr>) (mark 0 s)
      else s)"

text \<open>Switching the chip on and off is a dummy that succeeds.\<close>

definition accel_enable :: "int \<Rightarrow> int \<Rightarrow> 'f accel \<Rightarrow> int \<times> 'f accel" where
  "accel_enable h en s =
     (if h \<noteq> 0 then (-22, s)
      else
        let flags = of_bool (en \<noteq> 0) in
        if push_bit 0 flags \<noteq> mEnabled s AND mask_bit 0
        then (0, s\<lparr>mEnabled := (mEnabled s AND NOT (mask_bit 0)) OR push_bit 0 flags\<rparr>)
        else (0, s))"

definition accel_readEvents :: "'f sensor_arith \<Rightarrow> (int \<Rightarrow> input_event read_result) \<Rightarrow> int \<Rightarrow> 'f accel \<Rightarrow> (int \<times> 'f sensors_event list \<times> 'f accel) option" where
  "accel_readEvents A = sensor_readEvents (accel_processEvent A) 1"

section \<open>Compass\<close>

definition mag_init :: "'f sensor_arith \<Rightarrow> input_event list \<Rightarrow> 'f sensor" where
  "mag_init A storage =
     \<lparr>mEnabled = 0, mPendingMask = 0, mInputReader = new_reader storage 32,
      mPendingEvents =
        [\<lparr>se_sensor = 1, se_type = 2, se_timestamp = 0, se_x = fzero A, se_y = fzero A, se_z = fzero A, se_status = 3\<rparr>,
         \<lparr>se_sensor = 2, se_type = 3, se_timestamp = 0, se_x = fzero A, se_y = fzero A, se_z = fzero A, se_status = 3\<rparr>]\<rparr>"

definition mag_processEvent :: "'f sensor_arith \<Rightarrow> u16 \<Rightarrow> int \<Rightarrow> 'f sensor \<Rightarrow> 'f sensor" where
  "mag_processEvent A code v s =
     (if code = ABS_X then pending_at 0 (\<lambda>e. e\<lparr>se_x := times_M_X A v\<rparr>) (mark 0 s)
      else if code = ABS_Y then pending_at 0 (\<lambda>e. e\<lparr>se_y := times_M_Y A v\<rparr>) (mark 0 s)
      else if code = ABS_Z then pending_at 0 (\<lambda>e. e\<lparr>se_z := times_M_Z A v\<rparr>) (mark 0 s)
      else if code = ABS_RX then pending_at 1 (\<lambda>e. e\<lparr>se_x := times_O_Y A v\<rparr>) (mark 1 s)
      else if code = ABS_RY then pending_at 1 (\<lambda>e. e\<lparr>se_y := times_O_P A v\<rparr>) (mark 1 s)
      else if code = ABS_RZ then pending_at 1 (\<lambda>e. e\<lparr>se_z := times_O_R A v\<rparr>) (mark 1 s)
      else if code = ABS_WHEEL then pending_at 1 (\<lambda>e. e\<lparr>se_status := word_of_int (v AND 0x7fff)\<rparr>) (mark 1 s)
      else s)"

definition mag_enable :: "int \<Rightarrow> int \<Rightarrow> 'f sensor \<Rightarrow> int \<times> 'f sensor" where
  "mag_enable h en s =
     (if h \<noteq> 1 \<and> h \<noteq> 2 then (-22, s)
      else let j = (if h = 1 then 0 else 1) in
        (0, s\<lparr>mEnabled := (mEnabled s AND NOT (mask_bit j)) OR push_bit j (of_bool (en \<noteq> 0))\<rparr>))"

definition mag_readEvents :: "'f sensor_arith \<Rightarrow> (int \<Rightarrow> input_event read_result) \<Rightarrow> int \<Rightarrow> 'f sensor \<Rightarrow> (int \<times> 'f sensors_event list \<times> 'f sensor) option" where
  "mag_readEvents A = sensor_readEvents (mag_processEvent A) 2"

section \<open>Masks\<close>

lemma bit_mask_bit [simp]: "j < 32 \<Longrightarrow> bit (mask_bit j) i \<longleftrightarrow> i = j"
  by (auto simp: mask_bit_def bit_simps)

lemma mask_bit_test: "j < 32 \<Longrightarrow> w AND mask_bit j \<noteq> 0 \<longleftrightarrow> bit w j"
  by (simp add: mask_bit_def push_bit_of_1 and_exp_eq_0_iff_not_bit)

lemma bit_clear: "j < 32 \<Longrightarrow> bit (w AND NOT (mask_bit j)) i \<longleftrightarrow> bit w i \<and> i \<noteq> j"
  using bit_imp_le_length [of w i] by (auto simp: bit_and_iff bit_not_iff)

lemma bit_mark: "j < 32 \<Longrightarrow> bit (w OR mask_bit j) i \<longleftrightarrow> bit w i \<or> i = j"
  by (simp add: bit_or_iff)

section \<open>Reports of one synchronisation event\<close>

definition outs :: "int \<Rightarrow> nat list \<Rightarrow> ('f, 'm) sensor_scheme \<Rightarrow> 'f sensors_event list" where
  "outs time js s = map (\<lambda>j. (mPendingEvents s ! j)\<lparr>se_timestamp := time\<rparr>) (filter (\<lambda>j. bit (mPendingMask s) j \<and> bit (mEnabled s) j) js)"

fun settle :: "int \<Rightarrow> nat list \<Rightarrow> ('f, 'm) sensor_scheme \<Rightarrow> ('f, 'm) sensor_scheme" where
  "settle time [] s = s"
| "settle time (j # js) s = settle time js (if bit (mPendingMask s) j then stamp time j s else s)"

lemma outs_nothing_pending: "\<forall>j \<in> set js. \<not> bit (mPendingMask s) j \<Longrightarrow> outs time js s = []"
  by (simp add: outs_def)

lemma settle_nothing_pending: "\<forall>j \<in> set js. \<not> bit (mPendingMask s) j \<Longrightarrow> settle time js s = s"
  by (induction js) simp_all

lemma outs_cong:
  assumes "mEnabled s' = mEnabled s" "\<forall>j \<in> set js. bit (mPendingMask s') j = bit (mPendingMask s) j \<and> mPendingEvents s' ! j = mPendingEvents s ! j"
  shows "outs time js s' = outs time js s"
  using assms unfolding outs_def by (intro map_cong filter_cong) auto

lemma stamp_fields [simp]:
  "mInputReader (stamp time j s) = mInputReader s" "mEnabled (stamp time j s) = mEnabled s"
  "length (mPendingEvents (stamp time j s)) = length (mPendingEvents s)"
  by (simp_all add: stamp_def)

lemma stamp_bit: "j < 32 \<Longrightarrow> bit (mPendingMask (stamp time j s)) i \<longleftrightarrow> bit (mPendingMask s) i \<and> i \<noteq> j"
  by (simp add: stamp_def bit_clear)

lemma stamp_event: "i \<noteq> j \<Longrightarrow> mPendingEvents (stamp time j s) ! i = mPendingEvents s ! i"
  by (simp add: stamp_def)

text \<open>
  The loop over the sensors gives the first of the reports that are due, as many as there is room for,
  and leaves the others due.
\<close>

lemma report_pending_frame:
  "report_pending time js count s = (count', out, s') \<Longrightarrow> set js \<subseteq> {..<32} \<Longrightarrow>
   mInputReader s' = mInputReader s \<and> mEnabled s' = mEnabled s \<and> length (mPendingEvents s') = length (mPendingEvents s) \<and>
   (\<forall>i. bit (mPendingMask s') i \<longrightarrow> bit (mPendingMask s) i) \<and>
   (\<forall>i. i \<notin> set js \<longrightarrow> bit (mPendingMask s') i = bit (mPendingMask s) i \<and> mPendingEvents s' ! i = mPendingEvents s ! i)"
proof (induction js arbitrary: count s count' out)
  case (Cons j js)
  have j: "j < 32" "set js \<subseteq> {..<32}" using Cons.prems(2) by auto
  consider "count = 0 \<or> mPendingMask s = 0" | c o' where "report_pending time js c (stamp time j s) = (count', o', s')"
    | "report_pending time js count s = (count', out, s')"
    using Cons.prems(1) by (auto simp: Let_def split: if_splits prod.splits)
  then show ?case
  proof cases
    case 1
    with Cons.prems(1) show ?thesis by auto
  next
    case 2
    from Cons.IH [OF this j(2)] show ?thesis by (auto simp: stamp_bit [OF j(1)] stamp_event)
  next
    case 3
    from Cons.IH [OF this j(2)] show ?thesis by auto
  qed
qed simp

lemma report_pending_spec:
  "report_pending time js count s = (count', out, s') \<Longrightarrow> distinct js \<Longrightarrow> set js \<subseteq> {..<32} \<Longrightarrow> set js \<subseteq> {..<length (mPendingEvents s)} \<Longrightarrow> 0 \<le> count \<Longrightarrow>
   count' = count - int (length out) \<and> 0 \<le> count' \<and> outs time js s = out @ outs time js s' \<and> settle time js s' = settle time js s \<and>
   (count' = 0 \<or> (\<forall>j \<in> set js. \<not> bit (mPendingMask s') j))"
proof (induction js arbitrary: count s count' out)
  case Nil
  then show ?case by (simp add: outs_def)
next
  case (Cons j js)
  have j: "j < 32" "j \<notin> set js" "j < length (mPendingEvents s)" and js: "distinct js" "set js \<subseteq> {..<32}" "set js \<subseteq> {..<length (mPendingEvents s)}"
    using Cons.prems by auto
  let ?t = "stamp time j s"
  have same: "outs time js ?t = outs time js s"
  proof (intro outs_cong ballI)
    fix i assume "i \<in> set js"
    with j(2) have "i \<noteq> j" by auto
    then show "bit (mPendingMask ?t) i = bit (mPendingMask s) i \<and> mPendingEvents ?t ! i = mPendingEvents s ! i"
      by (simp add: stamp_bit [OF j(1)] stamp_event)
  qed simp
  consider (stop) "count = 0 \<or> mPendingMask s = 0"
    | (out) o' where "0 < count" "bit (mPendingMask s) j" "bit (mEnabled s) j" "out = mPendingEvents ?t ! j # o'"
        "report_pending time js (count - 1) ?t = (count', o', s')"
    | (off) "bit (mPendingMask s) j" "\<not> bit (mEnabled s) j" "report_pending time js count ?t = (count', out, s')"
    | (skip) "\<not> bit (mPendingMask s) j" "report_pending time js count s = (count', out, s')"
    using Cons.prems(1,5) mask_bit_test [OF j(1)] by (auto simp: Let_def split: if_splits prod.splits)
  then show ?case
  proof cases
    case stop
    with Cons.prems show ?thesis by (auto simp: outs_def)
  next
    case out
    have "\<not> bit (mPendingMask s') j" using report_pending_frame [OF out(5) js(2)] j(2) stamp_bit [OF j(1)] by auto
    moreover have "mPendingEvents ?t ! j = (mPendingEvents s ! j)\<lparr>se_timestamp := time\<rparr>" using j(3) by (simp add: stamp_def)
    ultimately show ?thesis using Cons.IH [OF out(5) js(1,2)] js(3) out same by (auto simp: outs_def)
  next
    case off
    have "\<not> bit (mPendingMask s') j" using report_pending_frame [OF off(3) js(2)] j(2) stamp_bit [OF j(1)] by auto
    with Cons.IH [OF off(3) js(1,2)] js(3) off same Cons.prems(5) show ?thesis by (auto simp: outs_def)
  next
    case skip
    have "\<not> bit (mPendingMask s') j" using report_pending_frame [OF skip(2) js(2)] skip(1) by auto
    with Cons.IH [OF skip(2) js] skip Cons.prems(5) show ?thesis by (auto simp: outs_def)
  qed
qed

section \<open>Drivers\<close>

text \<open>The reports of a stream of events, for a caller with room for all of them.\<close>

fun sensor_stream ::
  "(u16 \<Rightarrow> int \<Rightarrow> ('f, 'm) sensor_scheme \<Rightarrow> ('f, 'm) sensor_scheme) \<Rightarrow> nat \<Rightarrow> input_event list \<Rightarrow> ('f, 'm) sensor_scheme \<Rightarrow> 'f sensors_event list" where
  "sensor_stream process n [] s = []"
| "sensor_stream process n (e # es) s =
     (if ev_type e = EV_ABS then sensor_stream process n es (process (ev_code e) (ev_value e) s)
      else if ev_type e = EV_SYN then
        outs (timevalToNano (ev_time e)) [0..<n] s @ sensor_stream process n es (settle (timevalToNano (ev_time e)) [0..<n] s)
      else sensor_stream process n es s)"

definition pending_ok :: "nat \<Rightarrow> ('f, 'm) sensor_scheme \<Rightarrow> bool" where
  "pending_ok n s \<longleftrightarrow> length (mPendingEvents s) = n \<and> (\<forall>i. bit (mPendingMask s) i \<longrightarrow> i < n)"

definition sensor_ok :: "nat \<Rightarrow> ('f, 'm) sensor_scheme \<Rightarrow> bool" where
  "sensor_ok n s \<longleftrightarrow> ring_ok (mInputReader s) \<and> pending_ok n s"

text \<open>Calls of \<open>readEvents\<close>, with the events that were received and all reports.\<close>

fun sensor_calls ::
  "(u16 \<Rightarrow> int \<Rightarrow> ('f, 'm) sensor_scheme \<Rightarrow> ('f, 'm) sensor_scheme) \<Rightarrow> nat \<Rightarrow> ((int \<Rightarrow> input_event read_result) \<times> int) list \<Rightarrow> ('f, 'm) sensor_scheme
     \<Rightarrow> (input_event list \<times> 'f sensors_event list \<times> ('f, 'm) sensor_scheme) option" where
  "sensor_calls process n [] s = Some ([], [], s)"
| "sensor_calls process n ((read, count) # calls) s =
     do {
       (_, out, s') \<leftarrow> sensor_readEvents process n read count s;
       (got, rest, s'') \<leftarrow> sensor_calls process n calls s';
       Some (received read (mInputReader s) @ got, out @ rest, s'')
     }"

locale sensor_driver =
  fixes process :: "u16 \<Rightarrow> int \<Rightarrow> ('f, 'm) sensor_scheme \<Rightarrow> ('f, 'm) sensor_scheme"
    and numSensors :: nat
  assumes few: "numSensors \<le> 32"
    and process_reader: "process c v (s\<lparr>mInputReader := r\<rparr>) = (process c v s)\<lparr>mInputReader := r\<rparr>"
    and process_pending: "pending_ok numSensors s \<Longrightarrow> pending_ok numSensors (process c v s)"
begin

lemma reader_process: "mInputReader (process c v s) = mInputReader s"
proof -
  have "process c v s = process c v (s\<lparr>mInputReader := mInputReader s\<rparr>)" by simp
  also have "\<dots> = (process c v s)\<lparr>mInputReader := mInputReader s\<rparr>" by (rule process_reader)
  finally have "mInputReader (process c v s) = mInputReader ((process c v s)\<lparr>mInputReader := mInputReader s\<rparr>)" by simp
  then show ?thesis by simp
qed

lemma outs_reader: "outs time js (s\<lparr>mInputReader := r\<rparr>) = outs time js s"
  by (simp add: outs_def)

lemma settle_reader: "settle time js (s\<lparr>mInputReader := r\<rparr>) = (settle time js s)\<lparr>mInputReader := r\<rparr>"
proof (induction js arbitrary: s)
  case (Cons j js)
  have "stamp time j (s\<lparr>mInputReader := r\<rparr>) = (stamp time j s)\<lparr>mInputReader := r\<rparr>" by (simp add: stamp_def)
  with Cons.IH show ?case by (simp del: stamp_fields)
qed simp

lemma stream_reader: "sensor_stream process numSensors es (s\<lparr>mInputReader := r\<rparr>) = sensor_stream process numSensors es s"
  by (induction es arbitrary: s) (simp_all add: process_reader outs_reader settle_reader)

lemma consume_ok:
  assumes "sensor_ok numSensors s" "unread (mInputReader s) = e # es"
  shows "sensor_ok numSensors (consume s) \<and> unread (mInputReader (consume s)) = es"
  using assms next_event_tl [of "mInputReader s"] by (simp add: sensor_ok_def consume_def pending_ok_def)

lemma process_ok: "sensor_ok numSensors s \<Longrightarrow> sensor_ok numSensors (process c v s)"
  by (simp add: sensor_ok_def reader_process process_pending)

lemma stream_consume: "sensor_stream process numSensors es (consume s) = sensor_stream process numSensors es s"
  by (simp add: consume_def stream_reader)

lemma report_ok:
  assumes "sensor_ok numSensors s" "report_pending time [0..<numSensors] count s = (count', out, s')"
  shows "sensor_ok numSensors s' \<and> mInputReader s' = mInputReader s"
proof -
  have "set [0..<numSensors] \<subseteq> {..<32}" using few by auto
  from assms(1) report_pending_frame [OF assms(2) this] show ?thesis by (auto simp: sensor_ok_def pending_ok_def)
qed

lemma nothing_pending: "sensor_ok numSensors s \<Longrightarrow> \<forall>j \<in> set [0..<numSensors]. \<not> bit (mPendingMask s) j \<Longrightarrow> mPendingMask s = 0"
  by (auto simp: sensor_ok_def pending_ok_def bit_eq_iff)

lemma report_at_sync:
  assumes ok: "sensor_ok numSensors s" and count: "0 \<le> count"
    and rep: "report_pending time [0..<numSensors] count s = (count', out, t)"
  shows "count' = count - int (length out) \<and> 0 \<le> count' \<and> (count' = 0 \<or> mPendingMask t = 0) \<and>
    outs time [0..<numSensors] s = out @ outs time [0..<numSensors] t \<and> settle time [0..<numSensors] t = settle time [0..<numSensors] s"
proof -
  have js: "distinct [0..<numSensors]" "set [0..<numSensors] \<subseteq> {..<32}" "set [0..<numSensors] \<subseteq> {..<length (mPendingEvents s)}"
    using few ok by (auto simp: sensor_ok_def pending_ok_def)
  from report_pending_spec [OF rep js count] nothing_pending [of t] report_ok [OF ok rep] show ?thesis by blast
qed

lemma loop_reports:
  assumes "sensor_ok numSensors s" "0 \<le> count"
  shows "\<exists>out s'. sensor_loop process numSensors count s = Some (out, s') \<and> sensor_ok numSensors s' \<and> int (length out) \<le> count \<and>
    (int (length out) < count \<longrightarrow> unread (mInputReader s') = []) \<and>
    (\<forall>es. sensor_stream process numSensors (unread (mInputReader s) @ es) s = out @ sensor_stream process numSensors (unread (mInputReader s') @ es) s')"
  using assms
proof (induction "length (unread (mInputReader s))" arbitrary: s count rule: less_induct)
  case less
  have ok: "ring_ok (mInputReader s)" using less.prems by (simp add: sensor_ok_def)
  show ?case
  proof (cases "count \<noteq> 0 \<and> readEvent (mInputReader s)")
    case False
    with ok show ?thesis using less.prems by (subst sensor_loop.simps) (auto simp: readEvent_iff)
  next
    case True
    then obtain e rest where u: "unread (mInputReader s) = e # rest" using ok by (auto simp: readEvent_iff neq_Nil_conv)
    then have cur: "current_event (mInputReader s) = Some e" using current_event_hd [OF ok] by simp
    have step: ?thesis if run: "sensor_loop process numSensors count s =
          do { (rest, s) \<leftarrow> sensor_loop process numSensors (count - int (length out)) (consume t); Some (out @ rest, s) }"
      and t: "sensor_ok numSensors t" "mInputReader t = mInputReader s" and room: "int (length out) \<le> count"
      and str: "\<And>es. sensor_stream process numSensors (e # es) s = out @ sensor_stream process numSensors es t" for out t
    proof -
      have c: "sensor_ok numSensors (consume t)" "unread (mInputReader (consume t)) = rest" using consume_ok [OF t(1)] t(2) u by auto
      have shorter: "length (unread (mInputReader (consume t))) < length (unread (mInputReader s))" using c(2) u by simp
      from less.hyps [OF shorter c(1), of "count - int (length out)"] room
      show ?thesis unfolding run u append_Cons str by (auto simp: c(2) stream_consume)
    qed
    consider (abs) "ev_type e = EV_ABS" | (syn) "ev_type e \<noteq> EV_ABS" "ev_type e = EV_SYN" | (other) "ev_type e \<noteq> EV_ABS" "ev_type e \<noteq> EV_SYN"
      by blast
    then show ?thesis
    proof cases
      case abs
      show ?thesis
        by (rule step [of "[]" "process (ev_code e) (ev_value e) s"], subst sensor_loop.simps)
          (use True cur abs less.prems in \<open>simp_all add: process_ok reader_process\<close>)
    next
      case other
      show ?thesis
        by (rule step [of "[]" s], subst sensor_loop.simps) (use True cur other less.prems in simp_all)
    next
      case syn
      obtain count' out t where rep: "report_pending (timevalToNano (ev_time e)) [0..<numSensors] count s = (count', out, t)"
        by (metis prod_cases3)
      note t = report_ok [OF less.prems(1) rep] and spec = report_at_sync [OF less.prems rep]
      have run: "sensor_loop process numSensors count s =
          do { (rest, s) \<leftarrow> sensor_loop process numSensors count' (if mPendingMask t = 0 then consume t else t); Some (out @ rest, s) }"
        by (subst sensor_loop.simps) (use True cur syn rep in simp)
      have str: "sensor_stream process numSensors (e # es) s = out @ sensor_stream process numSensors (e # es) t" for es
        using syn spec by simp
      show ?thesis
      proof (cases "mPendingMask t = 0")
        case True
        then have "sensor_stream process numSensors (e # es) t = sensor_stream process numSensors es t" for es
          using syn by (simp add: outs_nothing_pending settle_nothing_pending)
        with True run t spec str show ?thesis by (intro step [of out t]) simp_all
      next
        case False
        then have zero: "count' = 0" "count = int (length out)" using spec by auto
        have "sensor_loop process numSensors 0 t = Some ([], t)" by (subst sensor_loop.simps) simp
        then have "sensor_loop process numSensors count s = Some (out, t)" unfolding run zero(1) using False by simp
        with t u zero(2) str show ?thesis by (simp del: sensor_stream.simps)
      qed
    qed
  qed
qed

lemma readEvents_reports:
  assumes ok: "sensor_ok numSensors s" and count: "1 \<le> count" and ans: "\<forall>room. answer_ok room (read room)"
  shows "\<exists>n out s'. sensor_readEvents process numSensors read count s = Some (n, out, s') \<and> sensor_ok numSensors s' \<and>
    int (length out) \<le> count \<and>
    (\<forall>es. sensor_stream process numSensors (unread (mInputReader s) @ received read (mInputReader s) @ es) s =
       out @ sensor_stream process numSensors (unread (mInputReader s') @ es) s')"
proof -
  obtain n r where f: "fill read (mInputReader s) = Some (n, r)" "ring_ok r" "unread r = unread (mInputReader s) @ received read (mInputReader s)"
    using fill_appends [of "mInputReader s" read] ok ans by (auto simp: sensor_ok_def)
  let ?s = "s\<lparr>mInputReader := r\<rparr>"
  have s: "sensor_ok numSensors ?s" using ok f by (simp add: sensor_ok_def pending_ok_def)
  obtain out s' where l: "sensor_loop process numSensors count ?s = Some (out, s')" "sensor_ok numSensors s'" "int (length out) \<le> count"
    "\<And>es. sensor_stream process numSensors (unread r @ es) ?s = out @ sensor_stream process numSensors (unread (mInputReader s') @ es) s'"
    using loop_reports [OF s, of count] count by auto
  show ?thesis
  proof (cases "n < 0")
    case True
    with f s count show ?thesis by (simp add: sensor_readEvents_def stream_reader)
  next
    case False
    with f l count show ?thesis by (auto simp: sensor_readEvents_def stream_reader)
  qed
qed

lemma calls_report:
  assumes "sensor_ok numSensors s" and "\<forall>(read, count) \<in> set calls. 1 \<le> count \<and> (\<forall>room. answer_ok room (read room))"
  shows "\<exists>got out s'. sensor_calls process numSensors calls s = Some (got, out, s') \<and> sensor_ok numSensors s' \<and>
    sensor_stream process numSensors (unread (mInputReader s) @ got) s = out @ sensor_stream process numSensors (unread (mInputReader s')) s'"
  using assms
proof (induction calls arbitrary: s)
  case (Cons call calls)
  obtain read count where call: "call = (read, count)" by (cases call)
  with Cons.prems obtain n out s' where r: "sensor_readEvents process numSensors read count s = Some (n, out, s')" "sensor_ok numSensors s'"
    "\<And>es. sensor_stream process numSensors (unread (mInputReader s) @ received read (mInputReader s) @ es) s =
       out @ sensor_stream process numSensors (unread (mInputReader s') @ es) s'"
    using readEvents_reports [of s count read] by auto
  with Cons.IH [OF r(2)] Cons.prems(2) call show ?case by auto
qed simp

end

section \<open>The two drivers\<close>

lemma mark_pending: "j < n \<Longrightarrow> n \<le> 32 \<Longrightarrow> pending_ok n s \<Longrightarrow> pending_ok n (mark j s)"
  by (auto simp: pending_ok_def mark_def bit_mark)

lemma pending_at_pending: "pending_ok n s \<Longrightarrow> pending_ok n (pending_at j f s)"
  by (simp add: pending_ok_def pending_at_def)

lemma update_reader:
  "mark j (s\<lparr>mInputReader := r\<rparr>) = (mark j s)\<lparr>mInputReader := r\<rparr>"
  "pending_at j f (s\<lparr>mInputReader := r\<rparr>) = (pending_at j f s)\<lparr>mInputReader := r\<rparr>"
  by (simp_all add: mark_def pending_at_def)

interpretation compass: sensor_driver "mag_processEvent A" 2 for A
  by unfold_locales (simp_all add: mag_processEvent_def update_reader mark_pending pending_at_pending)

interpretation accelerometer: sensor_driver "accel_processEvent A" 1 for A
proof unfold_locales
  show "accel_processEvent A c v (s\<lparr>mInputReader := r\<rparr>) = (accel_processEvent A c v s)\<lparr>mInputReader := r\<rparr>" for c v r and s :: "'a accel"
  proof -
    have rot: "mHwRotation (mark 0 (s\<lparr>mInputReader := r\<rparr>)) = mHwRotation s" "mHwRotation (mark 0 s) = mHwRotation s"
      by (simp_all add: mark_def)
    show ?thesis unfolding accel_processEvent_def Let_def rot by (simp add: update_reader)
  qed
  show "pending_ok 1 (accel_processEvent A c v s)" if "pending_ok 1 s" for c v and s :: "'a accel"
    using that by (simp add: accel_processEvent_def Let_def mark_pending pending_at_pending)
qed simp

lemma init_ok:
  "length storage = 64 \<Longrightarrow> sensor_ok 2 (mag_init A storage) \<and> unread (mInputReader (mag_init A storage)) = []"
  "length storage = 64 \<Longrightarrow> sensor_ok 1 (accel_init A storage rot) \<and> unread (mInputReader (accel_init A storage rot)) = []"
  using new_reader_ok [of 32 storage] by (simp_all add: sensor_ok_def pending_ok_def mag_init_def accel_init_def)

lemma enable_ok:
  "sensor_ok 2 s \<Longrightarrow> sensor_ok 2 (snd (mag_enable h en s))"
  "sensor_ok 1 t \<Longrightarrow> sensor_ok 1 (snd (accel_enable h en t))"
  by (simp_all add: mag_enable_def accel_enable_def sensor_ok_def pending_ok_def Let_def)

lemma accel_reports_complete:
  assumes "sensor_ok 1 s" "\<forall>(read, count) \<in> set calls. 1 \<le> count \<and> (\<forall>room. answer_ok room (read room))"
  shows "\<exists>got out s'. sensor_calls (accel_processEvent A) 1 calls s = Some (got, out, s') \<and> sensor_ok 1 s' \<and>
    sensor_stream (accel_processEvent A) 1 (unread (mInputReader s) @ got) s = out @ sensor_stream (accel_processEvent A) 1 (unread (mInputReader s')) s'"
  using assms by (rule accelerometer.calls_report)

text \<open>
  C19. The compass loses no report for lack of room. Whatever events \<open>read\<close> delivers and however few
  reports each caller of \<open>readEvents\<close> has room for, every call returns, and the reports of all calls
  followed by those the events still in the buffer will give are the reports that one caller with
  room for everything would get from all events received.
\<close>

theorem mag_reports_complete:
  assumes "sensor_ok 2 s" and "\<forall>(read, count) \<in> set calls. 1 \<le> count \<and> (\<forall>room. answer_ok room (read room))"
  shows "\<exists>got out s'. sensor_calls (mag_processEvent A) 2 calls s = Some (got, out, s') \<and> sensor_ok 2 s' \<and>
    sensor_stream (mag_processEvent A) 2 (unread (mInputReader s) @ got) s = out @ sensor_stream (mag_processEvent A) 2 (unread (mInputReader s')) s'"
  using assms by (rule compass.calls_report)

text \<open>A field and an orientation, synchronised by one event, for callers with room for one report.\<close>

definition int_arith :: "int sensor_arith" where
  "int_arith = \<lparr>fzero = 0, fneg = uminus, times_A_X = id, times_A_Y = uminus, times_A_Z = uminus, times_M_X = id, times_M_Y = id,
     times_M_Z = uminus, times_O_Y = id, times_O_P = id, times_O_R = id\<rparr>"

definition three_events :: "int \<Rightarrow> input_event read_result" where
  "three_events room = (if room < 0 then Read_error 22 else Read_events (take (nat room)
     [\<lparr>ev_time = (0, 1), ev_type = EV_ABS, ev_code = ABS_X, ev_value = 7\<rparr>, \<lparr>ev_time = (0, 2), ev_type = EV_ABS, ev_code = ABS_RX, ev_value = 9\<rparr>,
      \<lparr>ev_time = (0, 3), ev_type = EV_SYN, ev_code = 0, ev_value = 0\<rparr>]))"

definition nothing_to_read :: "int \<Rightarrow> input_event read_result" where
  "nothing_to_read room = (if room < 0 then Read_error 22 else Read_events [])"

definition example_compass :: "int sensor" where
  "example_compass = snd (mag_enable 2 1 (snd (mag_enable 1 1 (mag_init int_arith (replicate 64 \<lparr>ev_time = (0, 0), ev_type = 0, ev_code = 0, ev_value = 0\<rparr>)))))"

theorem mag_reports_complete_witness:
  "map_option (\<lambda>(got, out, _). (length got, map (\<lambda>e. (se_sensor e, se_x e, se_timestamp e)) out))
     (sensor_calls (mag_processEvent int_arith) 2 [(three_events, 1), (nothing_to_read, 1)] example_compass) = Some (3, [(1, 7, 3000), (2, 9, 3000)]) \<and>
   (\<exists>got out s'. sensor_calls (mag_processEvent int_arith) 2 [(three_events, 1), (nothing_to_read, 1)] example_compass = Some (got, out, s') \<and> sensor_ok 2 s' \<and>
    sensor_stream (mag_processEvent int_arith) 2 (unread (mInputReader example_compass) @ got) example_compass =
      out @ sensor_stream (mag_processEvent int_arith) 2 (unread (mInputReader s')) s')"
proof (rule conjI, code_simp, rule mag_reports_complete)
  show "sensor_ok 2 example_compass" by (simp add: example_compass_def enable_ok init_ok)
qed (auto simp: three_events_def nothing_to_read_def)

end
