(* ===== verification/Spec2Isabelle.thy ===== *)
theory Spec2Isabelle
  imports Canbox_Delivery Mpeg_Delivery Ipod_Delivery Gps_Interface Allocator_Free
    Small_Hals Fm_Radio Sensors
begin

text \<open>
  \<^bold>\<open>Verification of the hardware modules of an in-vehicle head unit.\<close>

  The program is an Android system for a car head unit on the Freescale MX53. Most of its tree is
  Android itself; what makes it a head unit are the hardware modules under \<^verbatim>\<open>src/hardware/mx5x\<close>, C and C++
  libraries between the services of Android and the devices of the car. This library models those
  modules and the parts of the C library they rest on.

  \<^bold>\<open>Parts and how they interact.\<close> Three drivers talk to a device over a serial line: the CAN box, the
  MPEG decoder and the iPod. Each has a thread that reads bytes from the line, cuts them into frames,
  checks and parses them and pushes notifications into a queue; threads of the service wait on a
  semaphore and pop them; requests of the service are turned into frames and written to the line. The
  GPS driver reads NMEA sentences from a serial line in one thread, reports positions from a second
  one, and is started and stopped by its interface. The graphics allocator divides a region of memory
  among the users of gralloc. The sensor module collects input events into reports. The radio, the
  television, the status of the car, the audio control and the microcontroller are reached by \<open>ioctl\<close>.

  \<^bold>\<open>Conventions.\<close> A C object is a list of bytes, or a store where aliasing matters. An access outside an
  object, an assertion that fails and a loop that does not end are \<open>None\<close>; hence a theorem that a result is
  \<open>Some\<close> says that the code returns and makes no such access. Two things that C leaves undefined go on in the model: a
  \<open>memcpy\<close> between overlapping places, which the serial drivers use to move at most three bytes to the front
  of a buffer and which is taken as a copy in ascending order, and the log of \<open>canbox_write\<close>, which reads bytes as a string that
  need not end; the model of the CAN box driver records both (\<open>cb_lapses\<close>). Errors the code reports are values. Words
  are kept at their width where they can wrap around. The answers of the kernel, the results of
  \<open>malloc\<close>, uninitialised memory, floating-point arithmetic and the clock are arguments of the
  definitions. A call that holds a lock is one step; threads are interleaved between steps.

  \<^bold>\<open>Theories.\<close>

  \<^item> \<open>Prelude\<close>: byte objects, \<open>memcpy\<close>, \<open>memset\<close> and \<open>memchr\<close>, and the lemmas on them.

  \<^item> \<open>Bionic_Sem\<close>: \<^verbatim>\<open>bionic/libc/bionic/semaphore.c\<close> on its 32-bit word. The atomic steps follow the state
  diagram of the source; the locale \<open>counting_semaphore\<close> is the contract the queue relies on.

  \<^item> \<open>Tailq\<close>, \<open>Notif_Queue\<close>: the tail queue macros of \<^verbatim>\<open>sys/queue.h\<close> on a store of links refine a list (locale
  \<open>fifo_queue\<close>); the notification queue of the three serial drivers as a step relation, with the
  invariant that the semaphore counts the entries, in-order delivery, and that a pop never finds the
  queue empty.

  \<^item> \<open>Serial\<close>: the turn of the receive loop and the bounds of the receive buffer (locale \<open>receive_buffer\<close>):
  after any rounds the next read fits behind the bytes kept.

  \<^item> \<open>Canbox\<close>, \<open>Canbox_Delivery\<close>: \<^verbatim>\<open>libcanbox/canbox.cpp\<close>. The receive loop refines the cutting of frames on
  bytes; which frames are delivered, refused or lost, when the code faults or goes on past something
  undefined, and what a sender learns.

  \<^item> \<open>Framed_Reader\<close>: \<open>check_full_command\<close> as the MPEG and the iPod driver share it, with its refinement
  (locale \<open>framed_reader\<close>) and the independence of the way a stream is cut into reads (\<open>framed_stream\<close>).

  \<^item> \<open>Mpeg\<close>, \<open>Mpeg_Delivery\<close>, \<open>Ipod\<close>, \<open>Ipod_Delivery\<close>: \<^verbatim>\<open>libmpeg/mpeg.cpp\<close> and \<^verbatim>\<open>libipod/ipod.cpp\<close> with their
  protocols. Streams, well-formed requests, the round trip of the iPod's requests through its reader, exactly which
  frames cause undefined behaviour, and frames that stop or confuse the reader.

  \<^item> \<open>Gps_Time\<close>, \<open>Nmea_Tokens\<close>, \<open>Nmea_Reader\<close>, \<open>Nmea_Delivery\<close>: the calendar, the tokenizer and the parser of
  \<^verbatim>\<open>libgps/tractor_gps.c\<close>. The calendar against the Gregorian one, tokens against fields, numbers read
  back, lines delivered, and the sentences that are handled wrongly.

  \<^item> \<open>Gps_State\<close>, \<open>Gps_Interface\<close>: its two threads as a step relation, with an invariant for every
  interleaving and the end of a stop on every fair schedule; initialisation, start, stop and cleanup.

  \<^item> \<open>Linked_List\<close>, \<open>Allocator\<close>, \<open>Allocator_Blocks\<close>, \<open>Allocator_Free\<close>: \<^verbatim>\<open>libgralloc/allocator.h\<close> and
  \<^verbatim>\<open>allocator.cpp\<close>. The list template refines lists, empty ones included, the loops of the allocator end, its chunks tile the
  heap, blocks are disjoint and at pages, the fit is best, freeing undoes allocating (locale
  \<open>block_allocator\<close>).

  \<^item> \<open>Event_Reader\<close>, \<open>Sensors\<close>: \<^verbatim>\<open>libsensors\<close>. The circular buffer is a queue; the event loop of the compass
  and of the accelerometer (locale \<open>sensor_driver\<close>) loses no report.

  \<^item> \<open>Device_Calls\<close>, \<open>Small_Hals\<close>, \<open>Fm_Radio\<close>: \<open>ioctl\<close> and \<open>poll\<close> in a state monad; \<^verbatim>\<open>libmcu\<close>, \<^verbatim>\<open>libaudctl\<close>, \<^verbatim>\<open>libatv\<close>,
  \<^verbatim>\<open>libcarstatus\<close> and \<^verbatim>\<open>libfm\<close>. When the polling loops return, and the power of the second radio chip.

  \<^bold>\<open>Bounds.\<close> No loop is cut off by fuel. Loops that may run for ever are partial functions, and the
  theorems say when they return; the wait of a semaphore takes the list of its wake-ups and is \<open>None\<close>
  when it is still waiting at the end of that list. The allocator's theorems hold for a page
  size that is a power of two from 32 bytes to 1 MB, and for a heap that with one page is at most 2 GB;
  its contract is interpreted at pages of 4096 bytes.

  \<^bold>\<open>Not modelled.\<close> Logging, the tables of functions of the modules, and the opening of the serial lines
  but for the initial state it leaves. The light sensor, the search for input devices and the \<open>poll\<close>
  over all sensors, which work on files of \<^verbatim>\<open>/sys\<close> and system properties. The rest of gralloc, the
  frame buffer, camera, overlay, copybit and audio: their content is in memory maps and devices. The
  modules of other platforms, the boot loader, the system services, the framework and the
  applications: upstream code that is only carried along, or that lies above the hardware modules.
\<close>

end
